theory Spec2Isabelle
  imports Complex_Main "HOL-Library.AList"
begin

section \<open>Data model\<close>

text \<open>
  Numbers of the scripts are modelled as exact rationals; the tolerances of the source
  (\<open>1e-10\<close>, \<open>1e-6\<close>) and the Big-M constant are the same constants, written as fractions.
  \<open>Infinity\<close> as the start value of a running minimum is \<open>None\<close>.
\<close>

datatype rel = Le | Ge | Eq

record constraint =
  coeffs :: "rat list"
  ctype :: rel
  rhs :: rat

datatype objType = Max | Min

record lp_data =
  objType :: objType
  objCoeffs :: "rat list"
  constraints :: "constraint list"

text \<open>Variable names \<open>x1\<close>, \<open>s1\<close>, \<open>e1\<close>, \<open>a1\<close>: the letter and the number.\<close>

datatype vname = X nat | S nat | E nat | A nat

datatype methodTag = Converted | BigM | Dual | Normal

abbreviation M :: rat where
  "M \<equiv> 1000000"

abbreviation eps10 :: rat where
  "eps10 \<equiv> 1 / 10000000000"

abbreviation eps6 :: rat where
  "eps6 \<equiv> 1 / 1000000"

abbreviation maxIterations :: nat where
  "maxIterations \<equiv> 100"

text \<open>\<open>Math.round(v * 10000) / 10000\<close>; \<open>Math.round\<close> is \<open>\<lfloor>v + 1/2\<rfloor>\<close>.\<close>

definition round4 :: "rat \<Rightarrow> rat" where
  "round4 v = of_int (round (v * 10000)) / 10000"

section \<open>Simplex: building the tableau\<close>

record tab_setup =
  tableau0 :: "rat list list"
  zRow0 :: "rat list"
  varNames :: "vname list"
  basicVars0 :: "nat list"
  artificialVarIndices :: "nat list"
  methodsUsed :: "methodTag list"
  wasMinimization :: bool
  totalVars :: nat

definition slackCount :: "constraint list \<Rightarrow> nat" where
  "slackCount cs = length (filter (\<lambda>con. ctype con = Le) cs)"

definition surplusCount :: "constraint list \<Rightarrow> nat" where
  "surplusCount cs = length (filter (\<lambda>con. ctype con = Ge) cs)"

definition artificialCount :: "constraint list \<Rightarrow> nat" where
  "artificialCount cs = length (filter (\<lambda>con. ctype con = Ge \<or> ctype con = Eq) cs)"

text \<open>
  The naming loop: the accumulator is \<open>(varNames, slackIdx, surplusIdx, artificialIdx,
  artificialVarIndices)\<close>.
\<close>

fun nameVars ::
  "constraint list \<Rightarrow> vname list \<times> nat \<times> nat \<times> nat \<times> nat list
     \<Rightarrow> vname list \<times> nat \<times> nat \<times> nat \<times> nat list" where
  "nameVars [] acc = acc"
| "nameVars (con # cs) (names, slackIdx, surplusIdx, artificialIdx, arts) =
     (case ctype con of
        Le \<Rightarrow> nameVars cs (names @ [S slackIdx], slackIdx + 1, surplusIdx, artificialIdx, arts)
      | Ge \<Rightarrow> nameVars cs (names @ [E surplusIdx, A artificialIdx], slackIdx, surplusIdx + 1,
                 artificialIdx + 1, arts @ [length names + 1])
      | Eq \<Rightarrow> nameVars cs (names @ [A artificialIdx], slackIdx, surplusIdx,
                 artificialIdx + 1, arts @ [length names]))"

text \<open>
  One tableau row: \<open>new Array(totalVars + 1).fill(0)\<close>, the decision coefficients copied
  in, the slack, surplus and artificial entries, and the right-hand side last.
\<close>

definition baseRow :: "nat \<Rightarrow> nat \<Rightarrow> constraint \<Rightarrow> rat list" where
  "baseRow numVars tv con =
     fold (\<lambda>j row. row[j := coeffs con ! j]) [0..<numVars] (replicate (tv + 1) 0)"

text \<open>The row loop: the accumulator is \<open>(tableau, basicVars, varIndex)\<close>.\<close>

fun buildRows ::
  "nat \<Rightarrow> nat \<Rightarrow> constraint list \<Rightarrow> rat list list \<times> nat list \<times> nat
     \<Rightarrow> rat list list \<times> nat list \<times> nat" where
  "buildRows numVars tv [] acc = acc"
| "buildRows numVars tv (con # cs) (tab, bvs, varIndex) =
     (let row = baseRow numVars tv con in
      case ctype con of
        Le \<Rightarrow> buildRows numVars tv cs
                (tab @ [(row[varIndex := 1])[tv := rhs con]], bvs @ [varIndex], varIndex + 1)
      | Ge \<Rightarrow> buildRows numVars tv cs
                (tab @ [((row[varIndex := - 1])[varIndex + 1 := 1])[tv := rhs con]],
                 bvs @ [varIndex + 1], varIndex + 2)
      | Eq \<Rightarrow> buildRows numVars tv cs
                (tab @ [(row[varIndex := 1])[tv := rhs con]], bvs @ [varIndex], varIndex + 1))"

text \<open>
  The Z-row: negated objective coefficients, \<open>M\<close> in every artificial column, then
  \<open>M\<close> times each row whose basic variable is artificial subtracted.
\<close>

definition subtractRow :: "rat \<Rightarrow> rat list \<Rightarrow> nat \<Rightarrow> rat list \<Rightarrow> rat list" where
  "subtractRow factor row tv target =
     fold (\<lambda>j t. t[j := t ! j - factor * row ! j]) [0..<tv + 1] target"

definition buildZRow ::
  "nat \<Rightarrow> nat \<Rightarrow> rat list \<Rightarrow> nat list \<Rightarrow> rat list list \<Rightarrow> nat list \<Rightarrow> rat list" where
  "buildZRow numVars tv objC arts tab bvs =
     (let z0 = replicate (tv + 1) 0;
          z1 = fold (\<lambda>j z. z[j := - (objC ! j)]) [0..<numVars] z0;
          z2 = fold (\<lambda>artIdx z. z[artIdx := M]) arts z1
      in fold (\<lambda>i z. if bvs ! i \<in> set arts then subtractRow M (tab ! i) tv z else z)
           [0..<length bvs] z2)"

definition buildTableau :: "nat \<Rightarrow> lp_data \<Rightarrow> tab_setup" where
  "buildTableau numVars data =
     (let wasMin = (objType data = Min);
          objC = (if wasMin then map uminus (objCoeffs data) else objCoeffs data);
          cs = constraints data;
          tv = numVars + slackCount cs + surplusCount cs + artificialCount cs;
          (names, _, _, _, arts) = nameVars cs (map (\<lambda>j. X (j + 1)) [0..<numVars], 1, 1, 1, []);
          (tab, bvs, _) = buildRows numVars tv cs ([], [], numVars)
      in \<lparr> tableau0 = tab,
           zRow0 = buildZRow numVars tv objC arts tab bvs,
           varNames = names,
           basicVars0 = bvs,
           artificialVarIndices = arts,
           methodsUsed = (if wasMin then [Converted] else []) @
                         (if 0 < artificialCount cs then [BigM] else []),
           wasMinimization = wasMin,
           totalVars = tv \<rparr>)"

section \<open>Simplex: tests and pivot selection\<close>

definition isOptimal :: "rat list \<Rightarrow> nat \<Rightarrow> bool" where
  "isOptimal zRow tv = list_all (\<lambda>j. \<not> zRow ! j < - eps10) [0..<tv]"

definition hasNegativeRHS :: "rat list list \<Rightarrow> bool" where
  "hasNegativeRHS tab = list_ex (\<lambda>row. row \<noteq> [] \<and> last row < - eps10) tab"

text \<open>The running pair is \<open>(minVal, pivotCol)\<close>; \<open>-1\<close> is \<open>None\<close>.\<close>

definition findPivotColumn :: "rat list \<Rightarrow> nat \<Rightarrow> nat option" where
  "findPivotColumn zRow tv =
     snd (fold (\<lambda>j (minVal, pivotCol).
                  if zRow ! j < minVal then (zRow ! j, Some j) else (minVal, pivotCol))
            [0..<tv] (0, None))"

text \<open>The running pair is \<open>(minRatio, pivotRow)\<close>; \<open>minRatio = None\<close> is \<open>Infinity\<close>.\<close>

definition ratioStep :: "rat list list \<Rightarrow> nat \<Rightarrow> nat \<Rightarrow> nat \<Rightarrow> rat option \<times> nat option
    \<Rightarrow> rat option \<times> nat option" where
  "ratioStep tab pivotCol tv i acc =
     (let rhsv = tab ! i ! tv; coeff = tab ! i ! pivotCol in
      if coeff > eps10 then
        (let ratio = rhsv / coeff in
         if ratio \<ge> 0 \<and> (case fst acc of None \<Rightarrow> True | Some m \<Rightarrow> ratio < m)
         then (Some ratio, Some i) else acc)
      else acc)"

definition findPivotRow :: "rat list list \<Rightarrow> nat \<Rightarrow> nat \<Rightarrow> nat option" where
  "findPivotRow tab pivotCol tv =
     snd (fold (ratioStep tab pivotCol tv) [0..<length tab] (None, None))"

definition findDualPivotRow :: "rat list list \<Rightarrow> nat \<Rightarrow> nat option" where
  "findDualPivotRow tab tv =
     snd (fold (\<lambda>i (minRHS, pivotRow).
                  if tab ! i ! tv < minRHS then (tab ! i ! tv, Some i) else (minRHS, pivotRow))
            [0..<length tab] (0, None))"

definition findDualPivotCol :: "rat list list \<Rightarrow> rat list \<Rightarrow> nat \<Rightarrow> nat \<Rightarrow> nat option" where
  "findDualPivotCol tab zRow pivotRow tv =
     snd (fold (\<lambda>j acc.
                  let aij = tab ! pivotRow ! j in
                  if aij < - eps10 then
                    (let ratio = \<bar>zRow ! j / aij\<bar> in
                     if (case fst acc of None \<Rightarrow> True | Some m \<Rightarrow> ratio < m)
                     then (Some ratio, Some j) else acc)
                  else acc)
            [0..<tv] (None :: rat option, None))"

section \<open>Simplex: the pivot\<close>

text \<open>
  The pivot writes entries \<open>0 .. totalVars\<close> of each row: the pivot row divided by the
  pivot element, then every other row and the Z-row less their pivot-column entry times
  the new pivot row; \<open>basicVars[pivotRow] = pivotCol\<close>.
\<close>

definition pivot ::
  "rat list list \<Rightarrow> rat list \<Rightarrow> nat \<Rightarrow> nat \<Rightarrow> nat list \<Rightarrow> nat
     \<Rightarrow> rat list list \<times> rat list \<times> nat list" where
  "pivot tab zRow pivotRow pivotCol bvs tv =
     (let pivotElement = tab ! pivotRow ! pivotCol;
          prow = fold (\<lambda>j r. r[j := r ! j / pivotElement]) [0..<tv + 1] (tab ! pivotRow);
          tab1 = tab[pivotRow := prow];
          tab2 = fold (\<lambda>i t. if i \<noteq> pivotRow
                              then t[i := subtractRow (t ! i ! pivotCol) prow tv (t ! i)]
                              else t)
                   [0..<length tab1] tab1;
          zRow' = subtractRow (zRow ! pivotCol) prow tv zRow
      in (tab2, zRow', bvs[pivotRow := pivotCol]))"

section \<open>Simplex: the iteration loop\<close>

datatype step = StInitial | StPivot nat nat | StInfeasible | StOptimal | StUnbounded

record lp_state =
  tableau :: "rat list list"
  zRow :: "rat list"
  basicVars :: "nat list"
  useDualSimplex :: bool
  steps :: "step list"

datatype 'a ctl = Break 'a | Continue 'a

text \<open>
  The check made at the optimality test: some row whose basic variable is artificial has
  a right-hand side of absolute value above \<open>1e-10\<close>.
\<close>

definition hasArtificialInBasis :: "rat list list \<Rightarrow> nat list \<Rightarrow> nat list \<Rightarrow> nat \<Rightarrow> bool" where
  "hasArtificialInBasis tab bvs arts tv =
     list_ex (\<lambda>i. bvs ! i \<in> set arts \<and> \<bar>tab ! i ! tv\<bar> > eps10) [0..<length bvs]"

definition applyPivot :: "nat \<Rightarrow> nat \<Rightarrow> nat \<Rightarrow> lp_state \<Rightarrow> lp_state" where
  "applyPivot tv pivotRow pivotCol s =
     (case pivot (tableau s) (zRow s) pivotRow pivotCol (basicVars s) tv of
        (tab, z, bvs) \<Rightarrow>
          s\<lparr> tableau := tab, zRow := z, basicVars := bvs,
             steps := steps s @ [StPivot pivotRow pivotCol] \<rparr>)"

text \<open>The body of the \<open>while\<close> loop, after \<open>iteration++\<close>.\<close>

definition iter :: "nat \<Rightarrow> nat list \<Rightarrow> lp_state \<Rightarrow> lp_state ctl" where
  "iter tv arts s =
     (if useDualSimplex s \<and> hasNegativeRHS (tableau s) then
        (case findDualPivotRow (tableau s) tv of
           None \<Rightarrow> Continue (s\<lparr> useDualSimplex := False \<rparr>)
         | Some pivotRow \<Rightarrow>
             (case findDualPivotCol (tableau s) (zRow s) pivotRow tv of
                None \<Rightarrow> Break (s\<lparr> steps := steps s @ [StInfeasible] \<rparr>)
              | Some pivotCol \<Rightarrow> Continue (applyPivot tv pivotRow pivotCol s)))
      else if isOptimal (zRow s) tv then
        Break (s\<lparr> steps := steps s @
                 [if hasArtificialInBasis (tableau s) (basicVars s) arts tv
                  then StInfeasible else StOptimal] \<rparr>)
      else
        (case findPivotColumn (zRow s) tv of
           None \<Rightarrow> Break (s\<lparr> steps := steps s @ [StOptimal] \<rparr>)
         | Some pivotCol \<Rightarrow>
             (case findPivotRow (tableau s) pivotCol tv of
                None \<Rightarrow> Break (s\<lparr> steps := steps s @ [StUnbounded] \<rparr>)
              | Some pivotRow \<Rightarrow> Continue (applyPivot tv pivotRow pivotCol s))))"

function simplex_loop :: "nat \<Rightarrow> nat list \<Rightarrow> nat \<Rightarrow> lp_state \<Rightarrow> lp_state" where
  "simplex_loop tv arts iteration s =
     (if iteration < maxIterations then
        (case iter tv arts s of
           Break s' \<Rightarrow> s'
         | Continue s' \<Rightarrow> simplex_loop tv arts (iteration + 1) s')
      else s)"
  by pat_completeness auto
termination
  by (relation "measure (\<lambda>(tv, arts, iteration, s). maxIterations - iteration)") auto

declare simplex_loop.simps [simp del]

section \<open>Simplex: the result\<close>

text \<open>
  The solution object has the keys \<open>x1 .. xn\<close> in insertion order; assigning to a key keeps
  its place.
\<close>

definition extractSolution ::
  "rat list list \<Rightarrow> nat list \<Rightarrow> vname list \<Rightarrow> nat \<Rightarrow> nat \<Rightarrow> (vname \<times> rat) list" where
  "extractSolution tab bvs names tv numVars =
     fold (\<lambda>i sol. case names ! (bvs ! i) of
                      X k \<Rightarrow> AList.update (X k) (round4 (tab ! i ! tv)) sol
                    | _ \<Rightarrow> sol)
       [0..<length bvs] (map (\<lambda>j. (X (j + 1), 0)) [0..<numVars])"

datatype shown = Num rat | ShownM | ShownNegM

definition roundNum :: "rat \<Rightarrow> shown" where
  "roundNum num =
     (if \<bar>num\<bar> < eps10 then Num 0
      else if \<bar>num\<bar> \<ge> M / 2 then (if num > 0 then ShownM else ShownNegM)
      else Num (round4 num))"

record lp_result =
  res_steps :: "step list"
  res_methods :: "methodTag list"
  res_solution :: "(vname \<times> rat) list"
  res_finalZ :: rat
  res_tableau :: "rat list list"
  res_zRow :: "rat list"
  res_basicVars :: "nat list"

text \<open>
  \<open>solve\<close>: the tableau is built, the method chosen by \<open>hasNegativeRHS\<close>, the loop run, and
  the solution and objective value read from the last tableau.
\<close>

definition initState :: "tab_setup \<Rightarrow> lp_state" where
  "initState st =
     \<lparr> tableau = tableau0 st, zRow = zRow0 st, basicVars = basicVars0 st,
       useDualSimplex = hasNegativeRHS (tableau0 st), steps = [StInitial] \<rparr>"

definition solve :: "nat \<Rightarrow> lp_data \<Rightarrow> lp_result" where
  "solve numVars data =
     (let st = buildTableau numVars data;
          s0 = initState st;
          s = simplex_loop (totalVars st) (artificialVarIndices st) 0 s0;
          zValue = zRow s ! totalVars st
      in \<lparr> res_steps = steps s,
           res_methods = methodsUsed st @ [if useDualSimplex s0 then Dual else Normal],
           res_solution = extractSolution (tableau s) (basicVars s) (varNames st)
                            (totalVars st) numVars,
           res_finalZ = (if wasMinimization st then - zValue else zValue),
           res_tableau = tableau s,
           res_zRow = zRow s,
           res_basicVars = basicVars s \<rparr>)"

text \<open>The final panel of \<open>displayResults\<close>, decided by the type of the last step.\<close>

datatype panel = NoFeasibleSolution | UnboundedSolution | OptimalSolution "(vname \<times> rat) list" shown

definition finalPanel :: "lp_result \<Rightarrow> panel" where
  "finalPanel r =
     (case last (res_steps r) of
        StInfeasible \<Rightarrow> NoFeasibleSolution
      | StUnbounded \<Rightarrow> UnboundedSolution
      | _ \<Rightarrow> OptimalSolution (res_solution r) (roundNum (res_finalZ r)))"

text \<open>The what-if section is shown only when the last step is \<open>optimal\<close>.\<close>

definition whatIfShown :: "lp_result \<Rightarrow> bool" where
  "whatIfShown r = (last (res_steps r) = StOptimal)"

text \<open>
  \<open>iterN n\<close> runs \<open>n\<close> passes of the loop body and is \<open>Some\<close> when none of them breaks:
  \<open>iterN 100\<close> from the initial state says that the loop reaches its cap without
  concluding.
\<close>

fun iterN :: "nat \<Rightarrow> nat \<Rightarrow> nat list \<Rightarrow> lp_state \<Rightarrow> lp_state option" where
  "iterN 0 tv arts s = Some s"
| "iterN (Suc n) tv arts s =
     (case iter tv arts s of Break s' \<Rightarrow> None | Continue s' \<Rightarrow> iterN n tv arts s')"

section \<open>Simplex: what-if on an objective coefficient\<close>

datatype whatif =
    ResolveRecommended
  | BasisRemainsOptimal shown
  | ReoptimizationRequired

text \<open>
  \<open>analyzeChangeCj\<close> reads the stored basic variables, Z-row and objective value of the
  last solve; \<open>delta\<close> is the new value less the original one.
\<close>

definition analyzeChangeCj :: "nat list \<Rightarrow> rat list \<Rightarrow> rat \<Rightarrow> nat \<Rightarrow> rat \<Rightarrow> rat \<Rightarrow> whatif" where
  "analyzeChangeCj lastOptimalBasicVars lastOptimalZRow lastFinalZ varIdx newValue originalValue =
     (let delta = newValue - originalValue;
          isBasic = list_ex (\<lambda>bv. bv = varIdx) lastOptimalBasicVars
      in if isBasic then ResolveRecommended
         else (let currentReducedCost = lastOptimalZRow ! varIdx;
                   newReducedCost = currentReducedCost + delta
               in if newReducedCost \<ge> - eps10 then BasisRemainsOptimal (roundNum lastFinalZ)
                  else ReoptimizationRequired))"

section \<open>Branch and Bound: the LP relaxation\<close>

datatype relaxation = NotFeasible | Unbounded | Feasible "rat list" rat

text \<open>The row loop: the accumulator is \<open>(tableau, basicVars, artificialVarIndices, varIndex)\<close>.\<close>

fun relaxRows ::
  "nat \<Rightarrow> nat \<Rightarrow> constraint list \<Rightarrow> rat list list \<times> nat list \<times> nat list \<times> nat
     \<Rightarrow> rat list list \<times> nat list \<times> nat list \<times> nat" where
  "relaxRows numVars tv [] acc = acc"
| "relaxRows numVars tv (con # cs) (tab, bvs, arts, varIndex) =
     (let row = baseRow numVars tv con in
      case ctype con of
        Le \<Rightarrow> relaxRows numVars tv cs
                (tab @ [(row[varIndex := 1])[tv := rhs con]], bvs @ [varIndex], arts,
                 varIndex + 1)
      | Ge \<Rightarrow> relaxRows numVars tv cs
                (tab @ [((row[varIndex := - 1])[varIndex + 1 := 1])[tv := rhs con]],
                 bvs @ [varIndex + 1], arts @ [varIndex + 1], varIndex + 2)
      | Eq \<Rightarrow> relaxRows numVars tv cs
                (tab @ [(row[varIndex := 1])[tv := rhs con]], bvs @ [varIndex],
                 arts @ [varIndex], varIndex + 1))"

text \<open>The entering column of the relaxation: the running minimum starts at \<open>-1e-10\<close>.\<close>

definition relaxPivotCol :: "rat list \<Rightarrow> nat \<Rightarrow> nat option" where
  "relaxPivotCol z tv =
     snd (fold (\<lambda>j (minVal, pivotCol).
                  if z ! j < minVal then (z ! j, Some j) else (minVal, pivotCol))
            [0..<tv] (- eps10, None))"

text \<open>
  The relaxation's loop. Its ratio test and its pivot are the statements of
  \<open>findPivotRow\<close> and \<open>pivot\<close>, written inline in the script. \<open>None\<close> is the early return
  \<open>{feasible: false, unbounded: true}\<close>.
\<close>

function relaxLoop ::
  "nat \<Rightarrow> nat \<Rightarrow> rat list list \<times> rat list \<times> nat list
     \<Rightarrow> (rat list list \<times> rat list \<times> nat list) option" where
  "relaxLoop tv iteration (tab, z, bvs) =
     (if iteration < maxIterations then
        (case relaxPivotCol z tv of
           None \<Rightarrow> Some (tab, z, bvs)
         | Some pivotCol \<Rightarrow>
             (case findPivotRow tab pivotCol tv of
                None \<Rightarrow> None
              | Some pivotRow \<Rightarrow>
                  relaxLoop tv (iteration + 1) (pivot tab z pivotRow pivotCol bvs tv)))
      else Some (tab, z, bvs))"
  by pat_completeness auto
termination
  by (relation "measure (\<lambda>(tv, iteration, st). maxIterations - iteration)") auto

declare relaxLoop.simps [simp del]

definition relaxSolution :: "nat \<Rightarrow> nat \<Rightarrow> rat list list \<Rightarrow> nat list \<Rightarrow> rat list" where
  "relaxSolution numVars tv tab bvs =
     fold (\<lambda>i sol. if bvs ! i < numVars then sol[bvs ! i := tab ! i ! tv] else sol)
       [0..<length bvs] (replicate numVars 0)"

definition solveLP ::
  "nat \<Rightarrow> bool \<Rightarrow> rat list \<Rightarrow> constraint list \<Rightarrow> constraint list \<Rightarrow> relaxation" where
  "solveLP numVars isMaximization objC cs extraConstraints =
     (let allConstraints = cs @ extraConstraints;
          tv = numVars + slackCount allConstraints + surplusCount allConstraints
                 + artificialCount allConstraints;
          (tab, bvs, arts, _) = relaxRows numVars tv allConstraints ([], [], [], numVars);
          z0 = replicate (tv + 1) 0;
          z1 = fold (\<lambda>j z. z[j := (if isMaximization then - (objC ! j) else objC ! j)])
                 [0..<numVars] z0;
          z2 = fold (\<lambda>artIdx z. z[artIdx := M]) arts z1;
          z3 = fold (\<lambda>i z. if bvs ! i \<in> set arts then subtractRow M (tab ! i) tv z else z)
                 [0..<length bvs] z2
      in case relaxLoop tv 0 (tab, z3, bvs) of
           None \<Rightarrow> Unbounded
         | Some (tab', z', bvs') \<Rightarrow>
             if hasArtificialInBasis tab' bvs' arts tv then NotFeasible
             else Feasible (relaxSolution numVars tv tab' bvs')
                    (if isMaximization then z' ! tv else - (z' ! tv)))"

section \<open>Branch and Bound: the search\<close>

text \<open>
  \<open>integerVars\<close> is collected from the checkboxes in index order: the indices \<open>j\<close> below
  \<open>numVars\<close> whose box is checked.
\<close>

definition collectIntegerVars :: "nat \<Rightarrow> (nat \<Rightarrow> bool) \<Rightarrow> nat list" where
  "collectIntegerVars numVars checked = filter checked [0..<numVars]"

definition isFractional :: "rat \<Rightarrow> bool" where
  "isFractional val =
     (let frac = val - of_int \<lfloor>val\<rfloor> in frac > eps6 \<and> frac < 1 - eps6)"

text \<open>\<open>getFractionalVar\<close>: the first entry of \<open>integerVars\<close> with a fractional value.\<close>

fun getFractionalVar :: "nat list \<Rightarrow> rat list \<Rightarrow> (nat \<times> rat) option" where
  "getFractionalVar [] solution = None"
| "getFractionalVar (j # js) solution =
     (if isFractional (solution ! j) then Some (j, solution ! j)
      else getFractionalVar js solution)"

text \<open>\<open>bestZ\<close> starts at \<open>-Infinity\<close> or \<open>Infinity\<close>.\<close>

datatype bound = NegInfinity | Finite rat | PosInfinity

fun boundPlus :: "bound \<Rightarrow> rat \<Rightarrow> bound" where
  "boundPlus (Finite b) e = Finite (b + e)"
| "boundPlus NegInfinity e = NegInfinity"
| "boundPlus PosInfinity e = PosInfinity"

fun leBound :: "rat \<Rightarrow> bound \<Rightarrow> bool" where
  "leBound z (Finite b) = (z \<le> b)"
| "leBound z NegInfinity = False"
| "leBound z PosInfinity = True"

fun geBound :: "rat \<Rightarrow> bound \<Rightarrow> bool" where
  "geBound z (Finite b) = (z \<ge> b)"
| "geBound z NegInfinity = True"
| "geBound z PosInfinity = False"

fun gtBound :: "rat \<Rightarrow> bound \<Rightarrow> bool" where
  "gtBound z (Finite b) = (z > b)"
| "gtBound z NegInfinity = True"
| "gtBound z PosInfinity = False"

fun ltBound :: "rat \<Rightarrow> bound \<Rightarrow> bool" where
  "ltBound z (Finite b) = (z < b)"
| "ltBound z NegInfinity = False"
| "ltBound z PosInfinity = True"

text \<open>The branch description \<open>x3 \<le> 2\<close>: the variable's number, the relation, the bound.\<close>

datatype branchInfo = BranchOn nat rel int

record node =
  nid :: nat
  extraConstraints :: "constraint list"
  depth :: nat
  parent :: "nat option"
  branchInfo :: "branchInfo option"

datatype status = StatusInfeasible | StatusPruned | StatusInteger | StatusBranched

datatype message = MsgUnbounded | MsgInfeasible | MsgPruned rat bound | MsgInteger

record nodeInfo =
  info_id :: nat
  info_depth :: nat
  info_parent :: "nat option"
  info_branchInfo :: "branchInfo option"
  info_extraConstraints :: "constraint list"
  info_status :: status
  info_message :: "message option"
  info_solution :: "rat list option"
  info_zValue :: "rat option"
  info_fractionalVar :: "(nat \<times> rat) option"

record bb_state =
  queue :: "node list"
  nodeId :: nat
  bestSolution :: "rat list option"
  bestZ :: bound
  nodes :: "nodeInfo list"

record bb_problem =
  bb_numVars :: nat
  isMaximization :: bool
  integerVars :: "nat list"
  bb_objCoeffs :: "rat list"
  bb_constraints :: "constraint list"

definition nodeInfoOf :: "node \<Rightarrow> status \<Rightarrow> message option \<Rightarrow> nodeInfo" where
  "nodeInfoOf nd st msg =
     \<lparr> info_id = nid nd, info_depth = depth nd, info_parent = parent nd,
       info_branchInfo = branchInfo nd, info_extraConstraints = extraConstraints nd,
       info_status = st, info_message = msg, info_solution = None, info_zValue = None,
       info_fractionalVar = None \<rparr>"

definition dominated :: "bool \<Rightarrow> rat \<Rightarrow> bound \<Rightarrow> bool" where
  "dominated isMax z best =
     (if isMax then leBound z (boundPlus best eps6) else geBound z (boundPlus best (- eps6)))"

definition unitConstraint :: "nat \<Rightarrow> nat \<Rightarrow> rel \<Rightarrow> int \<Rightarrow> constraint" where
  "unitConstraint numVars i r v =
     \<lparr> coeffs = (replicate numVars 0)[i := 1], ctype = r, rhs = of_int v \<rparr>"

text \<open>
  The body of the \<open>while\<close> loop for the node just taken from the front of the queue
  (\<open>queue.shift()\<close>); \<open>s\<close> is the state with that node removed.
\<close>

definition processNode :: "bb_problem \<Rightarrow> node \<Rightarrow> bb_state \<Rightarrow> bb_state" where
  "processNode p nd s =
     (case solveLP (bb_numVars p) (isMaximization p) (bb_objCoeffs p) (bb_constraints p)
             (extraConstraints nd) of
        NotFeasible \<Rightarrow>
          s\<lparr> nodes := nodes s @ [nodeInfoOf nd StatusInfeasible (Some MsgInfeasible)] \<rparr>
      | Unbounded \<Rightarrow>
          s\<lparr> nodes := nodes s @ [nodeInfoOf nd StatusInfeasible (Some MsgUnbounded)] \<rparr>
      | Feasible sol z \<Rightarrow>
          (let solR = map round4 sol; zR = round4 z in
           if bestSolution s \<noteq> None \<and> dominated (isMaximization p) z (bestZ s) then
             s\<lparr> nodes := nodes s @
                  [(nodeInfoOf nd StatusPruned (Some (MsgPruned zR (bestZ s))))
                     \<lparr> info_solution := Some solR, info_zValue := Some zR \<rparr>] \<rparr>
           else
             (case getFractionalVar (integerVars p) sol of
                None \<Rightarrow>
                  (let better = (if isMaximization p then gtBound z (bestZ s)
                                 else ltBound z (bestZ s));
                       s1 = (if better then s\<lparr> bestSolution := Some solR, bestZ := Finite zR \<rparr>
                             else s)
                   in s1\<lparr> nodes := nodes s @
                            [(nodeInfoOf nd StatusInteger (Some MsgInteger))
                               \<lparr> info_solution := Some solR, info_zValue := Some zR \<rparr>] \<rparr>)
              | Some (i, v) \<Rightarrow>
                  (let floorVal = \<lfloor>v\<rfloor>; ceilVal = \<lceil>v\<rceil>;
                       leftNode = \<lparr> nid = nodeId s,
                                    extraConstraints = extraConstraints nd @
                                      [unitConstraint (bb_numVars p) i Le floorVal],
                                    depth = depth nd + 1, parent = Some (nid nd),
                                    branchInfo = Some (BranchOn (i + 1) Le floorVal) \<rparr>;
                       rightNode = \<lparr> nid = nodeId s + 1,
                                     extraConstraints = extraConstraints nd @
                                       [unitConstraint (bb_numVars p) i Ge ceilVal],
                                     depth = depth nd + 1, parent = Some (nid nd),
                                     branchInfo = Some (BranchOn (i + 1) Ge ceilVal) \<rparr>
                   in s\<lparr> nodes := nodes s @
                           [(nodeInfoOf nd StatusBranched None)
                              \<lparr> info_solution := Some solR, info_zValue := Some zR,
                                info_fractionalVar := Some (i, v) \<rparr>],
                         queue := queue s @ [leftNode, rightNode],
                         nodeId := nodeId s + 2 \<rparr>))))"

text \<open>
  The search loop runs while the queue is not empty; it need not end, so it is a partial
  function and \<open>None\<close> stands for a search that never returns.
\<close>

partial_function (option) bbLoop :: "bb_problem \<Rightarrow> bb_state \<Rightarrow> bb_state option" where
  "bbLoop p s =
     (case queue s of
        [] \<Rightarrow> Some s
      | nd # rest \<Rightarrow> bbLoop p (processNode p nd (s\<lparr> queue := rest \<rparr>)))"

declare bbLoop.simps [code]

definition initSearch :: "bb_problem \<Rightarrow> bb_state" where
  "initSearch p =
     \<lparr> queue = [\<lparr> nid = 0, extraConstraints = [], depth = 0, parent = None,
                  branchInfo = None \<rparr>],
       nodeId = 1, bestSolution = None,
       bestZ = (if isMaximization p then NegInfinity else PosInfinity), nodes = [] \<rparr>"

record bb_result =
  res_bestSolution :: "rat list option"
  res_bestZ :: bound
  res_nodes :: "nodeInfo list"

definition branchAndBound :: "bb_problem \<Rightarrow> bb_result option" where
  "branchAndBound p =
     map_option (\<lambda>s. \<lparr> res_bestSolution = bestSolution s, res_bestZ = bestZ s,
                        res_nodes = nodes s \<rparr>)
       (bbLoop p (initSearch p))"

text \<open>The final panel of the integer program's \<open>displayResults\<close>.\<close>

datatype ilp_panel = NoIntegerSolution | OptimalIntegerSolution "rat list" bound

definition ilpPanel :: "bb_result \<Rightarrow> ilp_panel" where
  "ilpPanel r =
     (case res_bestSolution r of
        None \<Rightarrow> NoIntegerSolution
      | Some sol \<Rightarrow> OptimalIntegerSolution sol (res_bestZ r))"

section \<open>The scripts on a heap\<close>

text \<open>
  To say what a solve call leaves unchanged, the arrays and constraint objects live in a
  heap: a list of objects, the address of an object being its index. A new object is
  appended (what exists is never moved or freed); an assignment to an array element
  replaces the object at the array's address. The heap at the time of a call holds
  everything the caller owns: the objective's coefficient array, the list of constraint
  references, each constraint object (its coefficient array's address, its relation, its
  right-hand side) and each coefficient array.

  The tableau rows and the Z-row are arrays of the heap, written in place as the scripts
  do. The outer tableau array (built by \<open>push\<close> and never assigned afterwards) is the list
  of its rows' addresses; \<open>basicVars\<close>, the names and the steps hold no object and stay
  values. Reads that select a pivot take the current contents of the rows.

  A read through an address that holds no object of the expected kind gives a default;
  the scripts receive well-formed inputs, and the frame property does not depend on it.
\<close>

datatype obj = NumArr "rat list" | RefArr "nat list" | ConObj nat rel rat

type_synonym heap = "obj list"

definition alloc :: "heap \<Rightarrow> obj \<Rightarrow> heap \<times> nat" where
  "alloc h ob = (h @ [ob], length h)"

definition getArr :: "heap \<Rightarrow> nat \<Rightarrow> rat list" where
  "getArr h a = (case h ! a of NumArr xs \<Rightarrow> xs | _ \<Rightarrow> [])"

definition getNum :: "heap \<Rightarrow> nat \<Rightarrow> nat \<Rightarrow> rat" where
  "getNum h a j = getArr h a ! j"

definition setNum :: "heap \<Rightarrow> nat \<Rightarrow> nat \<Rightarrow> rat \<Rightarrow> heap" where
  "setNum h a j v = (case h ! a of NumArr xs \<Rightarrow> h[a := NumArr (xs[j := v])] | _ \<Rightarrow> h)"

definition getRefs :: "heap \<Rightarrow> nat \<Rightarrow> nat list" where
  "getRefs h a = (case h ! a of RefArr rs \<Rightarrow> rs | _ \<Rightarrow> [])"

definition loadCon :: "heap \<Rightarrow> nat \<Rightarrow> constraint" where
  "loadCon h c =
     (case h ! c of
        ConObj cf t r \<Rightarrow> \<lparr> coeffs = getArr h cf, ctype = t, rhs = r \<rparr>
      | _ \<Rightarrow> \<lparr> coeffs = [], ctype = Le, rhs = 0 \<rparr>)"

definition conCoeffs :: "heap \<Rightarrow> nat \<Rightarrow> nat" where
  "conCoeffs h c = (case h ! c of ConObj cf t r \<Rightarrow> cf | _ \<Rightarrow> c)"

text \<open>
  \<open>new Array(totalVars + 1).fill(0)\<close> and the copy of the decision coefficients, read
  from the constraint's coefficient array.
\<close>

definition newRow :: "nat \<Rightarrow> nat \<Rightarrow> heap \<Rightarrow> nat \<Rightarrow> heap \<times> nat" where
  "newRow numVars tv h c =
     (case alloc h (NumArr (replicate (tv + 1) 0)) of
        (h1, row) \<Rightarrow>
          (fold (\<lambda>j h. setNum h row j (getNum h (conCoeffs h c) j)) [0..<numVars] h1, row))"

fun heapRows ::
  "nat \<Rightarrow> nat \<Rightarrow> nat list \<Rightarrow> heap \<times> nat list \<times> nat list \<times> nat list \<times> nat
     \<Rightarrow> heap \<times> nat list \<times> nat list \<times> nat list \<times> nat" where
  "heapRows numVars tv [] acc = acc"
| "heapRows numVars tv (c # cs) (h, rows, bvs, arts, varIndex) =
     (case newRow numVars tv h c of
        (h1, row) \<Rightarrow>
          (case ctype (loadCon h1 c) of
             Le \<Rightarrow>
               (let h2 = setNum h1 row varIndex 1;
                    h3 = setNum h2 row tv (rhs (loadCon h2 c))
                in heapRows numVars tv cs
                     (h3, rows @ [row], bvs @ [varIndex], arts, varIndex + 1))
           | Ge \<Rightarrow>
               (let h2 = setNum h1 row varIndex (- 1);
                    h3 = setNum h2 row (varIndex + 1) 1;
                    h4 = setNum h3 row tv (rhs (loadCon h3 c))
                in heapRows numVars tv cs
                     (h4, rows @ [row], bvs @ [varIndex + 1], arts @ [varIndex + 1], varIndex + 2))
           | Eq \<Rightarrow>
               (let h2 = setNum h1 row varIndex 1;
                    h3 = setNum h2 row tv (rhs (loadCon h2 c))
                in heapRows numVars tv cs
                     (h3, rows @ [row], bvs @ [varIndex], arts @ [varIndex], varIndex + 1))))"

definition heapSubtractRow :: "heap \<Rightarrow> nat \<Rightarrow> rat \<Rightarrow> nat \<Rightarrow> nat \<Rightarrow> heap" where
  "heapSubtractRow h target factor src tv =
     fold (\<lambda>j h. setNum h target j (getNum h target j - factor * getNum h src j)) [0..<tv + 1] h"

definition heapZRow ::
  "nat \<Rightarrow> nat \<Rightarrow> bool \<Rightarrow> heap \<Rightarrow> nat \<Rightarrow> nat list \<Rightarrow> nat list \<Rightarrow> nat list \<Rightarrow> heap \<times> nat" where
  "heapZRow numVars tv negated h objRef arts rows bvs =
     (case alloc h (NumArr (replicate (tv + 1) 0)) of
        (h1, z) \<Rightarrow>
          (let h2 = fold (\<lambda>j h. setNum h z j
                            (if negated then - getNum h objRef j else getNum h objRef j))
                      [0..<numVars] h1;
               h3 = fold (\<lambda>artIdx h. setNum h z artIdx M) arts h2;
               h4 = fold (\<lambda>i h. if bvs ! i \<in> set arts
                                  then heapSubtractRow h z M (rows ! i) tv else h)
                      [0..<length bvs] h3
           in (h4, z)))"

text \<open>The pivot, entry by entry, on the rows' and the Z-row's addresses.\<close>

definition heapPivot :: "heap \<Rightarrow> nat list \<Rightarrow> nat \<Rightarrow> nat \<Rightarrow> nat \<Rightarrow> nat \<Rightarrow> heap" where
  "heapPivot h rows z pivotRow pivotCol tv =
     (let pivotElement = getNum h (rows ! pivotRow) pivotCol;
          h1 = fold (\<lambda>j h. setNum h (rows ! pivotRow) j
                              (getNum h (rows ! pivotRow) j / pivotElement))
                 [0..<tv + 1] h;
          h2 = fold (\<lambda>i h. if i \<noteq> pivotRow
                             then heapSubtractRow h (rows ! i) (getNum h (rows ! i) pivotCol)
                                    (rows ! pivotRow) tv
                             else h)
                 [0..<length rows] h1
      in heapSubtractRow h2 z (getNum h2 z pivotCol) (rows ! pivotRow) tv)"

text \<open>The Simplex loop and \<open>solve\<close>, on the heap.\<close>

record heap_state =
  heapOf :: heap
  rowRefs :: "nat list"
  zRef :: nat
  hBasicVars :: "nat list"
  hUseDualSimplex :: bool
  hSteps :: "step list"


definition heapApplyPivot :: "nat \<Rightarrow> nat \<Rightarrow> nat \<Rightarrow> heap_state \<Rightarrow> heap_state" where
  "heapApplyPivot tv pivotRow pivotCol s =
     s\<lparr> heapOf := heapPivot (heapOf s) (rowRefs s) (zRef s) pivotRow pivotCol tv,
        hBasicVars := (hBasicVars s)[pivotRow := pivotCol],
        hSteps := hSteps s @ [StPivot pivotRow pivotCol] \<rparr>"

definition heapIter :: "nat \<Rightarrow> nat list \<Rightarrow> heap_state \<Rightarrow> heap_state ctl" where
  "heapIter tv arts s =
     (let tab = map (getArr (heapOf s)) (rowRefs s); z = getArr (heapOf s) (zRef s) in
      if hUseDualSimplex s \<and> hasNegativeRHS tab then
        (case findDualPivotRow tab tv of
           None \<Rightarrow> Continue (s\<lparr> hUseDualSimplex := False \<rparr>)
         | Some pivotRow \<Rightarrow>
             (case findDualPivotCol tab z pivotRow tv of
                None \<Rightarrow> Break (s\<lparr> hSteps := hSteps s @ [StInfeasible] \<rparr>)
              | Some pivotCol \<Rightarrow> Continue (heapApplyPivot tv pivotRow pivotCol s)))
      else if isOptimal z tv then
        Break (s\<lparr> hSteps := hSteps s @
                 [if hasArtificialInBasis tab (hBasicVars s) arts tv
                  then StInfeasible else StOptimal] \<rparr>)
      else
        (case findPivotColumn z tv of
           None \<Rightarrow> Break (s\<lparr> hSteps := hSteps s @ [StOptimal] \<rparr>)
         | Some pivotCol \<Rightarrow>
             (case findPivotRow tab pivotCol tv of
                None \<Rightarrow> Break (s\<lparr> hSteps := hSteps s @ [StUnbounded] \<rparr>)
              | Some pivotRow \<Rightarrow> Continue (heapApplyPivot tv pivotRow pivotCol s))))"

function heapLoop :: "nat \<Rightarrow> nat list \<Rightarrow> nat \<Rightarrow> heap_state \<Rightarrow> heap_state" where
  "heapLoop tv arts iteration s =
     (if iteration < maxIterations then
        (case heapIter tv arts s of
           Break s' \<Rightarrow> s'
         | Continue s' \<Rightarrow> heapLoop tv arts (iteration + 1) s')
      else s)"
  by pat_completeness auto
termination
  by (relation "measure (\<lambda>(tv, arts, iteration, s). maxIterations - iteration)") auto

declare heapLoop.simps [simp del]

definition heapSolve :: "nat \<Rightarrow> heap \<Rightarrow> objType \<Rightarrow> nat \<Rightarrow> nat \<Rightarrow> heap \<times> lp_result" where
  "heapSolve numVars h ot objRef consRef =
     (let wasMin = (ot = Min);
          (h0, objRef') = (if wasMin then alloc h (NumArr (map uminus (getArr h objRef)))
                           else (h, objRef));
          cons = getRefs h0 consRef;
          cs = map (loadCon h0) cons;
          tv = numVars + slackCount cs + surplusCount cs + artificialCount cs;
          (names, _, _, _, arts) = nameVars cs (map (\<lambda>j. X (j + 1)) [0..<numVars], 1, 1, 1, []);
          (h1, rows, bvs, _, _) = heapRows numVars tv cons (h0, [], [], [], numVars);
          (h2, z) = heapZRow numVars tv True h1 objRef' arts rows bvs;
          dual = hasNegativeRHS (map (getArr h2) rows);
          s = heapLoop tv arts 0
                \<lparr> heapOf = h2, rowRefs = rows, zRef = z, hBasicVars = bvs,
                  hUseDualSimplex = dual, hSteps = [StInitial] \<rparr>;
          tab = map (getArr (heapOf s)) (rowRefs s);
          zValue = getNum (heapOf s) (zRef s) tv
      in (heapOf s,
          \<lparr> res_steps = hSteps s,
            res_methods = (if wasMin then [Converted] else []) @
                          (if 0 < artificialCount cs then [BigM] else []) @
                          [if dual then Dual else Normal],
            res_solution = extractSolution tab (hBasicVars s) names tv numVars,
            res_finalZ = (if wasMin then - zValue else zValue),
            res_tableau = tab,
            res_zRow = getArr (heapOf s) (zRef s),
            res_basicVars = hBasicVars s \<rparr>))"

text \<open>
  The relaxation of Branch and Bound on the heap: \<open>[...constraints, ...extraConstraints]\<close>
  is a new list; the loop returns the heap and, unless it ended by the unbounded return,
  the basic variables.
\<close>

function heapRelaxLoop ::
  "nat \<Rightarrow> nat \<Rightarrow> heap \<Rightarrow> nat list \<Rightarrow> nat \<Rightarrow> nat list \<Rightarrow> heap \<times> nat list option" where
  "heapRelaxLoop tv iteration h rows z bvs =
     (if iteration < maxIterations then
        (case relaxPivotCol (getArr h z) tv of
           None \<Rightarrow> (h, Some bvs)
         | Some pivotCol \<Rightarrow>
             (case findPivotRow (map (getArr h) rows) pivotCol tv of
                None \<Rightarrow> (h, None)
              | Some pivotRow \<Rightarrow>
                  heapRelaxLoop tv (iteration + 1) (heapPivot h rows z pivotRow pivotCol tv)
                    rows z (bvs[pivotRow := pivotCol])))
      else (h, Some bvs))"
  by pat_completeness auto
termination
  by (relation "measure (\<lambda>(tv, iteration, h, rows, z, bvs). maxIterations - iteration)") auto

declare heapRelaxLoop.simps [simp del]

definition heapSolveLP ::
  "nat \<Rightarrow> bool \<Rightarrow> heap \<Rightarrow> nat \<Rightarrow> nat \<Rightarrow> nat \<Rightarrow> heap \<times> relaxation" where
  "heapSolveLP numVars isMax h objRef consRef extraRef =
     (let (h0, allRef) = alloc h (RefArr (getRefs h consRef @ getRefs h extraRef));
          cons = getRefs h0 allRef;
          cs = map (loadCon h0) cons;
          tv = numVars + slackCount cs + surplusCount cs + artificialCount cs;
          (h1, rows, bvs, arts, _) = heapRows numVars tv cons (h0, [], [], [], numVars);
          (h2, z) = heapZRow numVars tv isMax h1 objRef arts rows bvs
      in case heapRelaxLoop tv 0 h2 rows z bvs of
           (h3, None) \<Rightarrow> (h3, Unbounded)
         | (h3, Some bvs') \<Rightarrow>
             (let tab = map (getArr h3) rows in
              (h3, if hasArtificialInBasis tab bvs' arts tv then NotFeasible
                   else Feasible (relaxSolution numVars tv tab bvs')
                          (if isMax then getNum h3 z tv else - getNum h3 z tv))))"

text \<open>
  The search on the heap: a node holds the address of its list of extra constraints. A
  branch allocates two coefficient arrays, two constraint objects and two lists. The
  trace of nodes is a local array of records and is left out.
\<close>

record heap_node =
  hn_id :: nat
  hn_extra :: nat
  hn_depth :: nat
  hn_parent :: "nat option"
  hn_branchInfo :: "branchInfo option"

record heap_search =
  hQueue :: "heap_node list"
  hNodeId :: nat
  hBestSolution :: "rat list option"
  hBestZ :: bound

definition newUnitConstraint :: "nat \<Rightarrow> heap \<Rightarrow> nat \<Rightarrow> rel \<Rightarrow> int \<Rightarrow> heap \<times> nat" where
  "newUnitConstraint numVars h i r v =
     (case alloc h (NumArr (replicate numVars 0)) of
        (h1, cf) \<Rightarrow>
          (case alloc h1 (ConObj cf r (of_int v)) of
             (h2, con) \<Rightarrow> (setNum h2 cf i 1, con)))"

definition heapProcessNode ::
  "nat \<Rightarrow> bool \<Rightarrow> nat list \<Rightarrow> nat \<Rightarrow> nat \<Rightarrow> heap_node \<Rightarrow> heap \<times> heap_search
     \<Rightarrow> heap \<times> heap_search" where
  "heapProcessNode numVars isMax ivs objRef consRef nd hs =
     (case hs of (h, s) \<Rightarrow>
      (case heapSolveLP numVars isMax h objRef consRef (hn_extra nd) of
         (h1, NotFeasible) \<Rightarrow> (h1, s)
       | (h1, Unbounded) \<Rightarrow> (h1, s)
       | (h1, Feasible sol z) \<Rightarrow>
           if hBestSolution s \<noteq> None \<and> dominated isMax z (hBestZ s) then (h1, s)
           else
             (case getFractionalVar ivs sol of
                None \<Rightarrow>
                  (if (if isMax then gtBound z (hBestZ s) else ltBound z (hBestZ s))
                   then (h1, s\<lparr> hBestSolution := Some (map round4 sol),
                                hBestZ := Finite (round4 z) \<rparr>)
                   else (h1, s))
              | Some (i, v) \<Rightarrow>
                  (case newUnitConstraint numVars h1 i Le \<lfloor>v\<rfloor> of
                     (h2, leftConstraint) \<Rightarrow>
                  (case newUnitConstraint numVars h2 i Ge \<lceil>v\<rceil> of
                     (h3, rightConstraint) \<Rightarrow>
                  (case alloc h3 (RefArr (getRefs h3 (hn_extra nd) @ [leftConstraint])) of
                     (h4, leftExtra) \<Rightarrow>
                  (case alloc h4 (RefArr (getRefs h4 (hn_extra nd) @ [rightConstraint])) of
                     (h5, rightExtra) \<Rightarrow>
                       (h5, s\<lparr> hQueue := hQueue s @
                                 [\<lparr> hn_id = hNodeId s, hn_extra = leftExtra,
                                     hn_depth = hn_depth nd + 1, hn_parent = Some (hn_id nd),
                                     hn_branchInfo = Some (BranchOn (i + 1) Le \<lfloor>v\<rfloor>) \<rparr>,
                                  \<lparr> hn_id = hNodeId s + 1, hn_extra = rightExtra,
                                     hn_depth = hn_depth nd + 1, hn_parent = Some (hn_id nd),
                                     hn_branchInfo = Some (BranchOn (i + 1) Ge \<lceil>v\<rceil>) \<rparr>],
                               hNodeId := hNodeId s + 2 \<rparr>))))))))"

partial_function (option) heapBBLoop ::
  "nat \<Rightarrow> bool \<Rightarrow> nat list \<Rightarrow> nat \<Rightarrow> nat \<Rightarrow> heap \<times> heap_search
     \<Rightarrow> (heap \<times> heap_search) option" where
  "heapBBLoop numVars isMax ivs objRef consRef hs =
     (case hQueue (snd hs) of
        [] \<Rightarrow> Some hs
      | nd # rest \<Rightarrow>
          heapBBLoop numVars isMax ivs objRef consRef
            (heapProcessNode numVars isMax ivs objRef consRef nd
               (fst hs, (snd hs)\<lparr> hQueue := rest \<rparr>)))"

definition heapBranchAndBound ::
  "nat \<Rightarrow> bool \<Rightarrow> nat list \<Rightarrow> heap \<Rightarrow> nat \<Rightarrow> nat
     \<Rightarrow> (heap \<times> rat list option \<times> bound) option" where
  "heapBranchAndBound numVars isMax ivs h objRef consRef =
     (case alloc h (RefArr []) of
        (h0, noExtra) \<Rightarrow>
          map_option (\<lambda>(h', s). (h', hBestSolution s, hBestZ s))
            (heapBBLoop numVars isMax ivs objRef consRef
               (h0, \<lparr> hQueue = [\<lparr> hn_id = 0, hn_extra = noExtra, hn_depth = 0,
                                   hn_parent = None, hn_branchInfo = None \<rparr>],
                      hNodeId = 1, hBestSolution = None,
                      hBestZ = (if isMax then NegInfinity else PosInfinity) \<rparr>)))"

declare heapBBLoop.simps [code]

text \<open>
  \<open>keeps h0 h\<close>: every object of \<open>h0\<close> is in \<open>h\<close> at its address, unchanged. The invariant
  of the Simplex loop adds that the rows and the Z-row were allocated after \<open>h0\<close>.
\<close>

definition keeps :: "heap \<Rightarrow> heap \<Rightarrow> bool" where
  "keeps h0 h = (length h0 \<le> length h \<and> take (length h0) h = h0)"

definition heapInv :: "heap \<Rightarrow> heap_state \<Rightarrow> bool" where
  "heapInv h0 s =
     (keeps h0 (heapOf s) \<and> list_all (\<lambda>r. length h0 \<le> r) (rowRefs s) \<and> length h0 \<le> zRef s)"

section \<open>Predicates for the properties\<close>

subsection \<open>The basis invariant\<close>

text \<open>
  The columns listed in \<open>basicVars\<close> form an identity submatrix: the column of the basic
  variable of row \<open>i\<close> holds 1 in row \<open>i\<close> and 0 in every other row.
\<close>

definition basisIdentity :: "rat list list \<Rightarrow> nat list \<Rightarrow> bool" where
  "basisIdentity tab bvs =
     list_all (\<lambda>i. list_all (\<lambda>k. tab ! k ! (bvs ! i) = (if k = i then 1 else 0))
                      [0..<length tab])
       [0..<length bvs]"

subsection \<open>Invariants of the tableau\<close>

text \<open>
  While the rows are built: the next free column is \<open>vi\<close>; every row built so far has
  \<open>totalVars + 1\<close> entries and zeros from column \<open>vi\<close> on (the right-hand side apart); the
  basic columns chosen so far lie between \<open>numVars\<close> and \<open>vi\<close> and form an identity
  submatrix.
\<close>

definition rowsInv :: "nat \<Rightarrow> nat \<Rightarrow> rat list list \<Rightarrow> nat list \<Rightarrow> nat \<Rightarrow> bool" where
  "rowsInv numVars tv tab bvs vi =
     (numVars \<le> vi \<and> length bvs = length tab
      \<and> list_all (\<lambda>row. length row = tv + 1 \<and> list_all (\<lambda>c. row ! c = 0) [vi..<tv]) tab
      \<and> list_all (\<lambda>b. numVars \<le> b \<and> b < vi) bvs
      \<and> basisIdentity tab bvs)"

text \<open>In the loop: one basic column below \<open>totalVars\<close> per row, and the identity submatrix.\<close>

definition tableauInv :: "nat \<Rightarrow> lp_state \<Rightarrow> bool" where
  "tableauInv tv s =
     (length (basicVars s) = length (tableau s)
      \<and> list_all (\<lambda>row. length row = tv + 1) (tableau s)
      \<and> list_all (\<lambda>b. b < tv) (basicVars s)
      \<and> basisIdentity (tableau s) (basicVars s))"

subsection \<open>The end of the loop\<close>

text \<open>The step types that end the loop.\<close>

fun isTerminal :: "step \<Rightarrow> bool" where
  "isTerminal StInfeasible = True"
| "isTerminal StOptimal = True"
| "isTerminal StUnbounded = True"
| "isTerminal _ = False"

subsection \<open>Solution extraction, by index\<close>

text \<open>The test \<open>varName.startsWith('x')\<close>.\<close>

fun isX :: "vname \<Rightarrow> bool" where
  "isX (X k) = True"
| "isX _ = False"

text \<open>
  What the extraction loop does for row \<open>i\<close> when the names are those of \<open>buildTableau\<close>:
  the columns below \<open>numVars\<close> are the ones named \<open>x\<close>, and column \<open>j\<close> is \<open>x(j+1)\<close>.
\<close>

definition assignBasic :: "nat \<Rightarrow> rat list list \<Rightarrow> nat list \<Rightarrow> nat \<Rightarrow> nat
    \<Rightarrow> (vname \<times> rat) list \<Rightarrow> (vname \<times> rat) list" where
  "assignBasic numVars tab bvs tv i sol =
     (if bvs ! i < numVars then AList.update (X (Suc (bvs ! i))) (round4 (tab ! i ! tv)) sol
      else sol)"

subsection \<open>Fractional values, as the specification words them\<close>

text \<open>A value deviates from every integer by more than \<open>1e-6\<close>.\<close>

definition deviates :: "rat \<Rightarrow> bool" where
  "deviates v = (\<forall>k :: int. \<bar>v - of_int k\<bar> > eps6)"

subsection \<open>Trace records and feasibility of a point\<close>

text \<open>The trace record of a root node closed without a solution.\<close>

definition rootInfo :: "message \<Rightarrow> nodeInfo" where
  "rootInfo msg =
     \<lparr> info_id = 0, info_depth = 0, info_parent = None, info_branchInfo = None,
       info_extraConstraints = [], info_status = StatusInfeasible, info_message = Some msg,
       info_solution = None, info_zValue = None, info_fractionalVar = None \<rparr>"

text \<open>A point satisfies a constraint: its coefficients times the point, against the bound.\<close>

definition lhsValue :: "constraint \<Rightarrow> rat list \<Rightarrow> rat" where
  "lhsValue con xs = sum_list (map2 (*) (coeffs con) xs)"

definition satisfies :: "rat list \<Rightarrow> constraint \<Rightarrow> bool" where
  "satisfies xs con =
     (case ctype con of
        Le \<Rightarrow> lhsValue con xs \<le> rhs con
      | Ge \<Rightarrow> lhsValue con xs \<ge> rhs con
      | Eq \<Rightarrow> lhsValue con xs = rhs con)"

section \<open>Concrete problems\<close>

subsection \<open>Linear programs\<close>

text \<open>Scenario A: maximize \<open>3 x1 + 2 x2\<close> subject to \<open>x1 + x2 \<le> 4\<close> and \<open>x1 \<le> 3\<close>.\<close>

definition scenarioA :: lp_data where
  "scenarioA =
     \<lparr> objType = Max, objCoeffs = [3, 2],
       constraints = [\<lparr> coeffs = [1, 1], ctype = Le, rhs = 4 \<rparr>,
                      \<lparr> coeffs = [1, 0], ctype = Le, rhs = 3 \<rparr>] \<rparr>"

text \<open>Maximize \<open>x1\<close> subject to \<open>3 x1 \<le> 1\<close>: the optimum is \<open>x1 = 1/3\<close>.\<close>

definition oneThird :: lp_data where
  "oneThird =
     \<lparr> objType = Max, objCoeffs = [1],
       constraints = [\<lparr> coeffs = [3], ctype = Le, rhs = 1 \<rparr>] \<rparr>"

text \<open>Maximize \<open>3 x1 + 2 x2\<close> subject to \<open>x1 + x2 \<le> 4\<close>: \<open>x2\<close> stays non-basic.\<close>

definition oneRow :: lp_data where
  "oneRow =
     \<lparr> objType = Max, objCoeffs = [3, 2],
       constraints = [\<lparr> coeffs = [1, 1], ctype = Le, rhs = 4 \<rparr>] \<rparr>"

text \<open>
  Scenario B: \<open>x1 + x2 = 10\<close> with \<open>x1 \<le> 3\<close> and \<open>x2 \<le> 3\<close>, maximizing \<open>x1 + x2\<close>.
\<close>

definition scenarioB :: lp_data where
  "scenarioB =
     \<lparr> objType = Max, objCoeffs = [1, 1],
       constraints = [\<lparr> coeffs = [1, 1], ctype = Eq, rhs = 10 \<rparr>,
                      \<lparr> coeffs = [1, 0], ctype = Le, rhs = 3 \<rparr>,
                      \<lparr> coeffs = [0, 1], ctype = Le, rhs = 3 \<rparr>] \<rparr>"

text \<open>Minimize \<open>x1\<close> subject to \<open>x1 \<le> -1\<close>: the initial right-hand side is negative.\<close>

definition negativeRhs :: lp_data where
  "negativeRhs =
     \<lparr> objType = Min, objCoeffs = [1],
       constraints = [\<lparr> coeffs = [1], ctype = Le, rhs = - 1 \<rparr>] \<rparr>"

text \<open>
  A degenerate problem on which the entering and leaving rules of the engine cycle:
  maximize \<open>10 x1 - 57 x2 - 9 x3 - 24 x4\<close> subject to
  \<open>0.5 x1 - 5.5 x2 - 2.5 x3 + 9 x4 \<le> 0\<close>, \<open>0.5 x1 - 1.5 x2 - 0.5 x3 + x4 \<le> 0\<close> and
  \<open>x1 \<le> 1\<close>. Its optimum is \<open>Z = 1\<close> at \<open>x1 = 1\<close>, \<open>x3 = 1\<close>.
\<close>

definition cycling :: lp_data where
  "cycling =
     \<lparr> objType = Max, objCoeffs = [10, - 57, - 9, - 24],
       constraints = [\<lparr> coeffs = [1 / 2, - (11 / 2), - (5 / 2), 9], ctype = Le, rhs = 0 \<rparr>,
                      \<lparr> coeffs = [1 / 2, - (3 / 2), - (1 / 2), 1], ctype = Le, rhs = 0 \<rparr>,
                      \<lparr> coeffs = [1, 0, 0, 0], ctype = Le, rhs = 1 \<rparr>] \<rparr>"

text \<open>
  The six states the loop passes through on that problem, with the steps pushed so far
  as a parameter; the sixth pivot leads back to the first state.
\<close>

definition cyc0 :: "step list \<Rightarrow> lp_state" where
  "cyc0 st =
     \<lparr> tableau = [[1 / 2, - (11 / 2), - (5 / 2), 9, 1, 0, 0, 0],
                 [1 / 2, - (3 / 2), - (1 / 2), 1, 0, 1, 0, 0],
                 [1, 0, 0, 0, 0, 0, 1, 1]],
       zRow = [- 10, 57, 9, 24, 0, 0, 0, 0],
       basicVars = [4, 5, 6], useDualSimplex = False, steps = st \<rparr>"

definition cyc1 :: "step list \<Rightarrow> lp_state" where
  "cyc1 st =
     \<lparr> tableau = [[1, - 11, - 5, 18, 2, 0, 0, 0],
                 [0, 4, 2, - 8, - 1, 1, 0, 0],
                 [0, 11, 5, - 18, - 2, 0, 1, 1]],
       zRow = [0, - 53, - 41, 204, 20, 0, 0, 0],
       basicVars = [0, 5, 6], useDualSimplex = False, steps = st \<rparr>"

definition cyc2 :: "step list \<Rightarrow> lp_state" where
  "cyc2 st =
     \<lparr> tableau = [[1, 0, 1 / 2, - 4, - (3 / 4), 11 / 4, 0, 0],
                 [0, 1, 1 / 2, - 2, - (1 / 4), 1 / 4, 0, 0],
                 [0, 0, - (1 / 2), 4, 3 / 4, - (11 / 4), 1, 1]],
       zRow = [0, 0, - (29 / 2), 98, 27 / 4, 53 / 4, 0, 0],
       basicVars = [0, 1, 6], useDualSimplex = False, steps = st \<rparr>"

definition cyc3 :: "step list \<Rightarrow> lp_state" where
  "cyc3 st =
     \<lparr> tableau = [[2, 0, 1, - 8, - (3 / 2), 11 / 2, 0, 0],
                 [- 1, 1, 0, 2, 1 / 2, - (5 / 2), 0, 0],
                 [1, 0, 0, 0, 0, 0, 1, 1]],
       zRow = [29, 0, 0, - 18, - 15, 93, 0, 0],
       basicVars = [2, 1, 6], useDualSimplex = False, steps = st \<rparr>"

definition cyc4 :: "step list \<Rightarrow> lp_state" where
  "cyc4 st =
     \<lparr> tableau = [[- 2, 4, 1, 0, 1 / 2, - (9 / 2), 0, 0],
                 [- (1 / 2), 1 / 2, 0, 1, 1 / 4, - (5 / 4), 0, 0],
                 [1, 0, 0, 0, 0, 0, 1, 1]],
       zRow = [20, 9, 0, 0, - (21 / 2), 141 / 2, 0, 0],
       basicVars = [2, 3, 6], useDualSimplex = False, steps = st \<rparr>"

definition cyc5 :: "step list \<Rightarrow> lp_state" where
  "cyc5 st =
     \<lparr> tableau = [[- 4, 8, 2, 0, 1, - 9, 0, 0],
                 [1 / 2, - (3 / 2), - (1 / 2), 1, 0, 1, 0, 0],
                 [1, 0, 0, 0, 0, 0, 1, 1]],
       zRow = [- 22, 93, 21, 0, 0, - 24, 0, 0],
       basicVars = [4, 3, 6], useDualSimplex = False, steps = st \<rparr>"

definition cycleSteps :: "step list" where
  "cycleSteps = [StPivot 0 0, StPivot 1 1, StPivot 0 2, StPivot 1 3, StPivot 0 4, StPivot 1 5]"

text \<open>Maximize \<open>x1\<close> subject to \<open>2 x1 \<le> 3\<close>.\<close>

definition halfLP :: lp_data where
  "halfLP =
     \<lparr> objType = Max, objCoeffs = [1],
       constraints = [\<lparr> coeffs = [2], ctype = Le, rhs = 3 \<rparr>] \<rparr>"

subsection \<open>Integer programs\<close>

text \<open>
  Scenario D: maximize \<open>5 x1 + 4 x2\<close> subject to \<open>6 x1 + 4 x2 \<le> 24\<close> and
  \<open>x1 + 2 x2 \<le> 6\<close>, both variables integer.
\<close>

definition scenarioD :: bb_problem where
  "scenarioD =
     \<lparr> bb_numVars = 2, isMaximization = True,
       integerVars = collectIntegerVars 2 (\<lambda>j. True),
       bb_objCoeffs = [5, 4],
       bb_constraints = [\<lparr> coeffs = [6, 4], ctype = Le, rhs = 24 \<rparr>,
                         \<lparr> coeffs = [1, 2], ctype = Le, rhs = 6 \<rparr>] \<rparr>"

text \<open>Scenario C as an integer program: maximize \<open>x1\<close> subject to \<open>x1 \<ge> 0\<close> only.\<close>

definition scenarioC :: bb_problem where
  "scenarioC =
     \<lparr> bb_numVars = 1, isMaximization = True,
       integerVars = collectIntegerVars 1 (\<lambda>j. True),
       bb_objCoeffs = [1],
       bb_constraints = [\<lparr> coeffs = [1], ctype = Ge, rhs = 0 \<rparr>] \<rparr>"

text \<open>Scenario B as an integer program.\<close>

definition scenarioB_ilp :: bb_problem where
  "scenarioB_ilp =
     \<lparr> bb_numVars = 2, isMaximization = True,
       integerVars = collectIntegerVars 2 (\<lambda>j. True),
       bb_objCoeffs = [1, 1],
       bb_constraints = [\<lparr> coeffs = [1, 1], ctype = Eq, rhs = 10 \<rparr>,
                         \<lparr> coeffs = [1, 0], ctype = Le, rhs = 3 \<rparr>,
                         \<lparr> coeffs = [0, 1], ctype = Le, rhs = 3 \<rparr>] \<rparr>"

text \<open>
  Maximize \<open>-x1\<close> subject to \<open>-x1 \<le> -1\<close>, that is \<open>x1 \<ge> 1\<close>: the optimum is \<open>x1 = 1\<close>,
  \<open>Z = -1\<close>. The same problem as a linear and as an integer program.
\<close>

definition negativeRhsMax :: lp_data where
  "negativeRhsMax =
     \<lparr> objType = Max, objCoeffs = [- 1],
       constraints = [\<lparr> coeffs = [- 1], ctype = Le, rhs = - 1 \<rparr>] \<rparr>"

definition negativeRhsILP :: bb_problem where
  "negativeRhsILP =
     \<lparr> bb_numVars = 1, isMaximization = True,
       integerVars = collectIntegerVars 1 (\<lambda>j. True),
       bb_objCoeffs = objCoeffs negativeRhsMax,
       bb_constraints = constraints negativeRhsMax \<rparr>"

text \<open>Maximize \<open>x1\<close> subject to \<open>2 x1 \<le> 3\<close>, with \<open>x1\<close> integer.\<close>

definition halfILP :: bb_problem where
  "halfILP =
     \<lparr> bb_numVars = 1, isMaximization = True, integerVars = [0], bb_objCoeffs = [1],
       bb_constraints = [\<lparr> coeffs = [2], ctype = Le, rhs = 3 \<rparr>] \<rparr>"

subsection \<open>A heap\<close>

text \<open>
  Maximize \<open>x1\<close> subject to \<open>2 x1 \<le> 3\<close>, on a heap: the objective's coefficients at
  address 0, the constraint's coefficients at 1, the constraint object at 2 and the list
  of constraints at 3.
\<close>

definition heapHalf :: heap where
  "heapHalf = [NumArr [1], NumArr [2], ConObj 1 Le 3, RefArr [2]]"

section \<open>Properties of the Simplex engine\<close>

text \<open>
  Claim C1. For maximize \<open>3 x1 + 2 x2\<close> subject to \<open>x1 + x2 \<le> 4\<close> and \<open>x1 \<le> 3\<close>, the
  Simplex solve ends with an \<open>optimal\<close> step, the solution \<open>x1 = 3\<close>, \<open>x2 = 1\<close> and the
  objective value \<open>Z = 11\<close>, and the final panel shows these.
\<close>

theorem scenarioA_optimal:
  "last (res_steps (solve 2 scenarioA)) = StOptimal
   \<and> res_solution (solve 2 scenarioA) = [(X 1, 3), (X 2, 1)]
   \<and> res_finalZ (solve 2 scenarioA) = 11
   \<and> finalPanel (solve 2 scenarioA) = OptimalSolution [(X 1, 3), (X 2, 1)] (Num 11)"
  unfolding scenarioA_def by code_simp

subsection \<open>The pivot\<close>

text \<open>A loop that assigns entry \<open>j\<close> from its old value, for \<open>j\<close> below \<open>n\<close>.\<close>

lemma fold_update_length:
  "length (fold (\<lambda>j r. r[j := f j (r ! j)]) js r) = length r"
  by (induction js arbitrary: r) simp_all

lemma fold_update_nth:
  "n \<le> length r \<Longrightarrow>
   fold (\<lambda>j r. r[j := f j (r ! j)]) [0..<n] r ! k = (if k < n then f k (r ! k) else r ! k)"
proof (induction n arbitrary: k)
  case 0
  then show ?case by simp
next
  case (Suc n)
  let ?r = "fold (\<lambda>j r. r[j := f j (r ! j)]) [0..<n] r"
  have len: "length ?r = length r" by (rule fold_update_length)
  have ih: "\<And>k. ?r ! k = (if k < n then f k (r ! k) else r ! k)"
    using Suc by simp
  show ?case
  proof (cases "k = n")
    case True
    then show ?thesis using Suc.prems len by (simp add: ih)
  next
    case False
    then show ?thesis by (simp add: ih)
  qed
qed

lemma subtractRow_nth:
  "tv + 1 \<le> length t \<Longrightarrow> c \<le> tv \<Longrightarrow>
   subtractRow factor row tv t ! c = t ! c - factor * row ! c"
  unfolding subtractRow_def
  using fold_update_nth [of "tv + 1" t "\<lambda>j x. x - factor * row ! j" c] by simp

lemma subtractRow_length: "length (subtractRow factor row tv t) = length t"
  unfolding subtractRow_def by (rule fold_update_length)

lemma pivot_tableau_nth:
  assumes rows: "list_all (\<lambda>row. length row = tv + 1) tab"
    and pr: "pivotRow < length tab" and k: "k < length tab" and c: "c \<le> tv"
  shows "fst (pivot tab z pivotRow pivotCol bvs tv) ! k ! c =
           (if k = pivotRow then tab ! pivotRow ! c / tab ! pivotRow ! pivotCol
            else tab ! k ! c - tab ! k ! pivotCol * (tab ! pivotRow ! c / tab ! pivotRow ! pivotCol))"
proof -
  define pe where "pe = tab ! pivotRow ! pivotCol"
  define prow where "prow = fold (\<lambda>j r. r[j := r ! j / pe]) [0..<tv + 1] (tab ! pivotRow)"
  define tab1 where "tab1 = tab[pivotRow := prow]"
  define g where
    "g = (\<lambda>i row. if i \<noteq> pivotRow then subtractRow (row ! pivotCol) prow tv row else row)"
  define tab2 where "tab2 = fold (\<lambda>i t. t[i := g i (t ! i)]) [0..<length tab1] tab1"
  have len: "\<And>i. i < length tab \<Longrightarrow> length (tab ! i) = tv + 1"
    using rows by (simp add: list_all_length)
  have prow_nth: "\<And>c. c \<le> tv \<Longrightarrow> prow ! c = tab ! pivotRow ! c / pe"
    unfolding prow_def
    using fold_update_nth [of "tv + 1" "tab ! pivotRow" "\<lambda>j x. x / pe"] len [OF pr] by simp
  have same: "(\<lambda>i t. if i \<noteq> pivotRow
                 then t[i := subtractRow (t ! i ! pivotCol) prow tv (t ! i)] else t)
              = (\<lambda>i t. t[i := g i (t ! i)])"
    unfolding g_def by (intro ext) simp
  have fst_eq: "fst (pivot tab z pivotRow pivotCol bvs tv) = tab2"
    unfolding pivot_def Let_def tab2_def tab1_def same [symmetric] prow_def pe_def by simp
  have tab2_nth: "tab2 ! k = g k (tab1 ! k)"
    unfolding tab2_def
    using fold_update_nth [of "length tab1" tab1 g k] k by (simp add: tab1_def)
  show ?thesis
  proof (cases "k = pivotRow")
    case True
    have "tab2 ! k = prow" using pr tab2_nth unfolding True g_def tab1_def by simp
    then show ?thesis using True c by (simp add: fst_eq prow_nth pe_def)
  next
    case False
    have l: "tv + 1 \<le> length (tab ! k)" using len [OF k] by simp
    have "tab2 ! k = subtractRow (tab ! k ! pivotCol) prow tv (tab ! k)"
      using False by (simp add: tab2_nth g_def tab1_def)
    then show ?thesis using False c subtractRow_nth [OF l c]
      by (simp add: fst_eq prow_nth pe_def)
  qed
qed

lemma pivot_basicVars: "snd (snd (pivot tab z pivotRow pivotCol bvs tv)) = bvs[pivotRow := pivotCol]"
  by (simp add: pivot_def Let_def)

lemma fold_cond_update_length:
  "length (fold (\<lambda>i t. if P i then t[i := h i t] else t) js t) = length t"
  by (induction js arbitrary: t) simp_all

lemma pivot_tableau_length: "length (fst (pivot tab z pivotRow pivotCol bvs tv)) = length tab"
  unfolding pivot_def Let_def fst_conv fold_cond_update_length by simp

lemma basisIdentity_iff:
  "basisIdentity tab bvs =
     (\<forall>i < length bvs. \<forall>k < length tab. tab ! k ! (bvs ! i) = (if k = i then 1 else 0))"
  unfolding basisIdentity_def list_all_iff by auto

lemma pivot_basic_column:
  assumes rows: "list_all (\<lambda>row. length row = tv + 1) tab"
    and bvs: "length bvs = length tab" "list_all (\<lambda>b. b < tv) bvs"
    and pr: "pivotRow < length tab" and pc: "pivotCol < tv"
    and nz: "tab ! pivotRow ! pivotCol \<noteq> 0"
    and inv: "basisIdentity tab bvs"
    and i: "i < length tab" and k: "k < length tab"
  shows "fst (pivot tab z pivotRow pivotCol bvs tv) ! k ! (bvs[pivotRow := pivotCol] ! i)
           = (if k = i then 1 else 0)"
proof (cases "i = pivotRow")
  case True
  then have col: "bvs[pivotRow := pivotCol] ! i = pivotCol" using pr bvs(1) by simp
  show ?thesis unfolding col
    using pivot_tableau_nth [OF rows pr k, of pivotCol] pc nz True by simp
next
  case False
  have id: "\<And>i k. i < length tab \<Longrightarrow> k < length tab \<Longrightarrow>
              tab ! k ! (bvs ! i) = (if k = i then 1 else 0)"
    using inv bvs(1) by (simp add: basisIdentity_iff)
  from False have col: "bvs[pivotRow := pivotCol] ! i = bvs ! i" by simp
  have "bvs ! i < tv" using bvs i by (simp add: list_all_length)
  then have le: "bvs ! i \<le> tv" by simp
  have zero: "tab ! pivotRow ! (bvs ! i) = 0" using id [OF i pr] False by simp
  show ?thesis unfolding col
    using pivot_tableau_nth [OF rows pr k le] id [OF i k] zero False by auto
qed

text \<open>
  Claim C7. The pivot preserves the basis invariant. For a tableau whose rows have
  \<open>totalVars + 1\<close> entries, with one basic variable per row, each a column below
  \<open>totalVars\<close>: when the columns listed in \<open>basicVars\<close> form an identity submatrix and the
  pivot element is not zero, the columns listed in the updated \<open>basicVars\<close> form an
  identity submatrix of the pivoted tableau.
\<close>

theorem pivot_preserves_identity:
  assumes rows: "list_all (\<lambda>row. length row = tv + 1) tab"
    and bvs: "length bvs = length tab" "list_all (\<lambda>b. b < tv) bvs"
    and pr: "pivotRow < length tab" and pc: "pivotCol < tv"
    and nz: "tab ! pivotRow ! pivotCol \<noteq> 0"
    and inv: "basisIdentity tab bvs"
  shows "basisIdentity (fst (pivot tab z pivotRow pivotCol bvs tv))
           (snd (snd (pivot tab z pivotRow pivotCol bvs tv)))"
proof -
  have "fst (pivot tab z pivotRow pivotCol bvs tv) ! k ! (bvs[pivotRow := pivotCol] ! i)
          = (if k = i then 1 else 0)"
    if "i < length tab" and "k < length tab" for i k
    using rows bvs pr pc nz inv that by (rule pivot_basic_column)
  then show ?thesis
    unfolding pivot_basicVars basisIdentity_iff
    by (simp add: pivot_tableau_length bvs(1))
qed

theorem pivot_preserves_identity_witness:
  "basisIdentity [[1, 1, 1, 0, 4], [1, 0, 0, 1, 3]] [2, 3]
   \<and> basisIdentity (fst (pivot [[1, 1, 1, 0, 4], [1, 0, 0, 1, 3]] [- 3, - 2, 0, 0, 0] 1 0 [2, 3] 4))
         (snd (snd (pivot [[1, 1, 1, 0, 4], [1, 0, 0, 1, 3]] [- 3, - 2, 0, 0, 0] 1 0 [2, 3] 4)))
   \<and> snd (snd (pivot [[1, 1, 1, 0, 4], [1, 0, 0, 1, 3]] [- 3, - 2, 0, 0, 0] 1 0 [2, 3] 4)) = [2, 0]"
proof -
  have inv: "basisIdentity [[1, 1, 1, 0, 4], [1, 0, 0, 1, 3]] [2, 3]"
    by code_simp
  have "basisIdentity (fst (pivot [[1, 1, 1, 0, 4], [1, 0, 0, 1, 3]] [- 3, - 2, 0, 0, 0] 1 0 [2, 3] 4))
         (snd (snd (pivot [[1, 1, 1, 0, 4], [1, 0, 0, 1, 3]] [- 3, - 2, 0, 0, 0] 1 0 [2, 3] 4)))"
    by (rule pivot_preserves_identity [OF _ _ _ _ _ _ inv]) simp_all
  moreover have "snd (snd (pivot [[1, 1, 1, 0, 4], [1, 0, 0, 1, 3]] [- 3, - 2, 0, 0, 0] 1 0 [2, 3] 4)) = [2, 0]"
    by (simp add: pivot_basicVars)
  ultimately show ?thesis using inv by simp
qed

subsection \<open>The basis through a solve\<close>

text \<open>
  The tableau that \<open>buildTableau\<close> returns has rows of \<open>totalVars + 1\<close> entries and one basic
  column per row, and its basic columns form an identity submatrix; every pivot the loop
  makes is on an element above \<open>1e-10\<close> or below \<open>-1e-10\<close>, so this holds in every state of
  the loop and in the result.
\<close>

lemma baseRow_length: "length (baseRow numVars tv con) = tv + 1"
  unfolding baseRow_def by (simp add: fold_update_length [of "\<lambda>j x. coeffs con ! j"])

lemma baseRow_zero:
  assumes "numVars \<le> c" and "c \<le> tv"
  shows "baseRow numVars tv con ! c = 0"
proof (cases "numVars \<le> tv + 1")
  case True
  have z: "(0 # replicate tv (0 :: rat)) ! c = 0" using assms by (cases c) simp_all
  show ?thesis
    unfolding baseRow_def
    using fold_update_nth [of numVars "replicate (tv + 1) 0" "\<lambda>j x. coeffs con ! j" c] assms True
    by (simp add: z)
next
  case False
  then show ?thesis using assms by simp
qed

lemma rowsInv_add:
  assumes inv: "rowsInv numVars tv tab bvs vi"
    and len: "length r = tv + 1"
    and low: "\<And>c. numVars \<le> c \<Longrightarrow> c < vi \<Longrightarrow> r ! c = 0"
    and high: "\<And>c. vi' \<le> c \<Longrightarrow> c < tv \<Longrightarrow> r ! c = 0"
    and one: "r ! b = 1"
    and b: "vi \<le> b" "b < vi'" "vi' \<le> tv"
  shows "rowsInv numVars tv (tab @ [r]) (bvs @ [b]) vi'"
proof -
  from inv have nv: "numVars \<le> vi" and l: "length bvs = length tab"
    and rows: "\<And>k. k < length tab \<Longrightarrow> length (tab ! k) = tv + 1"
    and bv: "\<And>i. i < length tab \<Longrightarrow> numVars \<le> bvs ! i \<and> bvs ! i < vi"
    and id: "\<And>i k. i < length tab \<Longrightarrow> k < length tab \<Longrightarrow>
               tab ! k ! (bvs ! i) = (if k = i then 1 else 0)"
    by (auto simp add: rowsInv_def list_all_length basisIdentity_iff)
  from inv have "\<forall>row \<in> set tab. \<forall>c \<in> set [vi..<tv]. row ! c = 0"
    by (simp add: rowsInv_def list_all_iff)
  then have zeros: "\<And>k c. k < length tab \<Longrightarrow> vi \<le> c \<Longrightarrow> c < tv \<Longrightarrow> tab ! k ! c = 0"
    by simp
  have "(tab @ [r]) ! k ! ((bvs @ [b]) ! i) = (if k = i then 1 else 0)"
    if "i < Suc (length tab)" "k < Suc (length tab)" for i k
  proof (cases "i < length tab")
    case i: True
    show ?thesis
    proof (cases "k < length tab")
      case True
      then show ?thesis using i id l by (simp add: nth_append)
    next
      case False
      then have "k = length tab" using that by simp
      then show ?thesis using i l bv [OF i] low by (simp add: nth_append)
    qed
  next
    case False
    then have i: "i = length tab" using that by simp
    show ?thesis
    proof (cases "k < length tab")
      case True
      then show ?thesis using i l b zeros [OF True, of b] by (simp add: nth_append)
    next
      case False
      then have "k = length tab" using that by simp
      then show ?thesis using i l one by (simp add: nth_append)
    qed
  qed
  then have "basisIdentity (tab @ [r]) (bvs @ [b])"
    by (simp add: basisIdentity_iff l)
  moreover have "list_all (\<lambda>row. length row = tv + 1 \<and> list_all (\<lambda>c. row ! c = 0) [vi'..<tv])
                   (tab @ [r])"
  proof -
    have "length row = tv + 1 \<and> (\<forall>c \<in> set [vi'..<tv]. row ! c = 0)" if "row \<in> set (tab @ [r])" for row
    proof (cases "row = r")
      case True
      then show ?thesis using len high by simp
    next
      case False
      then have "row \<in> set tab" using that by simp
      then obtain k where "k < length tab" "row = tab ! k"
        by (auto simp add: in_set_conv_nth)
      then show ?thesis using rows zeros b by simp
    qed
    then show ?thesis by (simp add: list_all_iff)
  qed
  moreover have "list_all (\<lambda>b. numVars \<le> b \<and> b < vi') (bvs @ [b])"
  proof -
    have "numVars \<le> bvs ! i \<and> bvs ! i < vi'" if "i < length tab" for i
      using bv [OF that] b by simp
    then show ?thesis using l b nv by (auto simp add: list_all_length nth_append less_Suc_eq)
  qed
  ultimately show ?thesis using nv b l by (simp add: rowsInv_def)
qed


lemma extraColumns_Cons:
  "slackCount (con # cs) + surplusCount (con # cs) + artificialCount (con # cs)
     = (case ctype con of Le \<Rightarrow> 1 | Ge \<Rightarrow> 2 | Eq \<Rightarrow> 1)
       + (slackCount cs + surplusCount cs + artificialCount cs)"
  by (cases "ctype con") (simp_all add: slackCount_def surplusCount_def artificialCount_def)

lemma buildRows_rowsInv:
  "rowsInv numVars tv tab bvs vi \<Longrightarrow>
   vi + (slackCount cs + surplusCount cs + artificialCount cs) = tv \<Longrightarrow>
   rowsInv numVars tv (fst (buildRows numVars tv cs (tab, bvs, vi)))
     (fst (snd (buildRows numVars tv cs (tab, bvs, vi)))) tv"
proof (induction cs arbitrary: tab bvs vi)
  case Nil
  then show ?case by (simp add: slackCount_def surplusCount_def artificialCount_def)
next
  case (Cons con cs)
  let ?row = "baseRow numVars tv con"
  have nv: "numVars \<le> vi" using Cons.prems(1) by (simp add: rowsInv_def)
  note cols = Cons.prems(2) [unfolded extraColumns_Cons]
  show ?case
  proof (cases "ctype con")
    case Le
    have "rowsInv numVars tv (tab @ [(?row[vi := 1])[tv := rhs con]]) (bvs @ [vi]) (vi + 1)"
      using Cons.prems(1)
    proof (rule rowsInv_add)
      show "length ((?row[vi := 1])[tv := rhs con]) = tv + 1" by (simp add: baseRow_length)
      show "((?row[vi := 1])[tv := rhs con]) ! vi = 1"
        using cols Le by (simp add: baseRow_length)
      show "\<And>c. numVars \<le> c \<Longrightarrow> c < vi \<Longrightarrow> ((?row[vi := 1])[tv := rhs con]) ! c = 0"
        using cols Le by (simp add: baseRow_zero)
      show "\<And>c. vi + 1 \<le> c \<Longrightarrow> c < tv \<Longrightarrow> ((?row[vi := 1])[tv := rhs con]) ! c = 0"
        using nv by (simp add: baseRow_zero)
    qed (use cols Le in simp_all)
    then show ?thesis
      using Cons.IH [of "tab @ [(?row[vi := 1])[tv := rhs con]]" "bvs @ [vi]" "vi + 1"] cols Le
      by (simp add: Let_def)
  next
    case Ge
    have "rowsInv numVars tv (tab @ [((?row[vi := - 1])[vi + 1 := 1])[tv := rhs con]])
            (bvs @ [vi + 1]) (vi + 2)"
      using Cons.prems(1)
    proof (rule rowsInv_add)
      show "length (((?row[vi := - 1])[vi + 1 := 1])[tv := rhs con]) = tv + 1"
        by (simp add: baseRow_length)
      show "(((?row[vi := - 1])[vi + 1 := 1])[tv := rhs con]) ! (vi + 1) = 1"
        using cols Ge by (simp add: baseRow_length)
      show "\<And>c. numVars \<le> c \<Longrightarrow> c < vi \<Longrightarrow>
              (((?row[vi := - 1])[vi + 1 := 1])[tv := rhs con]) ! c = 0"
        using cols Ge by (simp add: baseRow_zero)
      show "\<And>c. vi + 2 \<le> c \<Longrightarrow> c < tv \<Longrightarrow>
              (((?row[vi := - 1])[vi + 1 := 1])[tv := rhs con]) ! c = 0"
        using nv by (simp add: baseRow_zero)
    qed (use cols Ge in simp_all)
    then show ?thesis
      using Cons.IH [of "tab @ [((?row[vi := - 1])[vi + 1 := 1])[tv := rhs con]]"
          "bvs @ [vi + 1]" "vi + 2"] cols Ge
      by (simp add: Let_def)
  next
    case Eq
    have "rowsInv numVars tv (tab @ [(?row[vi := 1])[tv := rhs con]]) (bvs @ [vi]) (vi + 1)"
      using Cons.prems(1)
    proof (rule rowsInv_add)
      show "length ((?row[vi := 1])[tv := rhs con]) = tv + 1" by (simp add: baseRow_length)
      show "((?row[vi := 1])[tv := rhs con]) ! vi = 1"
        using cols Eq by (simp add: baseRow_length)
      show "\<And>c. numVars \<le> c \<Longrightarrow> c < vi \<Longrightarrow> ((?row[vi := 1])[tv := rhs con]) ! c = 0"
        using cols Eq by (simp add: baseRow_zero)
      show "\<And>c. vi + 1 \<le> c \<Longrightarrow> c < tv \<Longrightarrow> ((?row[vi := 1])[tv := rhs con]) ! c = 0"
        using nv by (simp add: baseRow_zero)
    qed (use cols Eq in simp_all)
    then show ?thesis
      using Cons.IH [of "tab @ [(?row[vi := 1])[tv := rhs con]]" "bvs @ [vi]" "vi + 1"] cols Eq
      by (simp add: Let_def)
  qed
qed

lemma buildTableau_tableauInv:
  "tableauInv (totalVars (buildTableau numVars data)) (initState (buildTableau numVars data))"
proof -
  define cs where "cs = constraints data"
  define tv where "tv = numVars + slackCount cs + surplusCount cs + artificialCount cs"
  have "rowsInv numVars tv [] [] numVars"
    by (simp add: rowsInv_def basisIdentity_def)
  then have "rowsInv numVars tv (fst (buildRows numVars tv cs ([], [], numVars)))
     (fst (snd (buildRows numVars tv cs ([], [], numVars)))) tv"
    by (rule buildRows_rowsInv) (simp add: tv_def)
  then have "tableauInv tv
      \<lparr> tableau = fst (buildRows numVars tv cs ([], [], numVars)), zRow = z,
        basicVars = fst (snd (buildRows numVars tv cs ([], [], numVars))),
        useDualSimplex = d, steps = st \<rparr>" for z d st
    by (auto simp add: rowsInv_def tableauInv_def list_all_iff)
  then show ?thesis
    by (simp add: buildTableau_def initState_def Let_def case_prod_beta cs_def tv_def)
qed

lemma findPivotColumn_bound: "findPivotColumn z tv = Some pivotCol \<Longrightarrow> pivotCol < tv"
proof -
  have "(case snd (fold (\<lambda>j (minVal, pivotCol).
                  if z ! j < minVal then (z ! j, Some j) else (minVal, pivotCol))
            [0..<n] acc) of
           None \<Rightarrow> True | Some j \<Rightarrow> j < n \<or> snd acc = Some j)" for n acc
  proof (induction n)
    case 0
    then show ?case by (simp split: option.splits)
  next
    case (Suc n)
    then show ?case
      by (auto simp add: case_prod_beta split: option.splits if_splits)
  qed
  from this [where n = tv and acc = "(0, None)"]
  show "findPivotColumn z tv = Some pivotCol \<Longrightarrow> pivotCol < tv"
    by (simp add: findPivotColumn_def)
qed

lemma findPivotRow_positive:
  "findPivotRow tab pivotCol tv = Some pivotRow \<Longrightarrow> tab ! pivotRow ! pivotCol > eps10"
proof -
  have "(case snd (fold (ratioStep tab pivotCol tv) [0..<n] acc) of
           None \<Rightarrow> True | Some i \<Rightarrow> tab ! i ! pivotCol > eps10 \<or> snd acc = Some i)" for n acc
  proof (induction n)
    case 0
    then show ?case by (simp split: option.splits)
  next
    case (Suc n)
    then show ?case
      by (auto simp add: ratioStep_def Let_def split: option.splits if_splits)
  qed
  from this [where n = "length tab" and acc = "(None, None)"]
  show "findPivotRow tab pivotCol tv = Some pivotRow \<Longrightarrow> tab ! pivotRow ! pivotCol > eps10"
    by (simp add: findPivotRow_def)
qed

lemma findDualPivotCol_negative:
  "findDualPivotCol tab z pivotRow tv = Some pivotCol \<Longrightarrow>
   pivotCol < tv \<and> tab ! pivotRow ! pivotCol < - eps10"
proof -
  have "(case snd (fold (\<lambda>j acc.
                  let aij = tab ! pivotRow ! j in
                  if aij < - eps10 then
                    (let ratio = \<bar>z ! j / aij\<bar> in
                     if (case fst acc of None \<Rightarrow> True | Some m \<Rightarrow> ratio < m)
                     then (Some ratio, Some j) else acc)
                  else acc)
            [0..<n] acc) of
           None \<Rightarrow> True
         | Some j \<Rightarrow> (j < n \<and> tab ! pivotRow ! j < - eps10) \<or> snd acc = Some j)"
    for n and acc :: "rat option \<times> nat option"
  proof (induction n)
    case 0
    then show ?case by (simp split: option.splits)
  next
    case (Suc n)
    then show ?case
      by (auto simp add: Let_def split: option.splits if_splits)
  qed
  from this [where n = tv and acc = "(None, None)"]
  show "findDualPivotCol tab z pivotRow tv = Some pivotCol \<Longrightarrow>
      pivotCol < tv \<and> tab ! pivotRow ! pivotCol < - eps10"
    by (simp add: findDualPivotCol_def)
qed

lemma findPivotRow_bound:
  "findPivotRow tab pivotCol tv = Some pivotRow \<Longrightarrow> pivotRow < length tab"
proof -
  have "(case snd (fold (ratioStep tab pivotCol tv) [0..<n] acc) of
           None \<Rightarrow> True | Some i \<Rightarrow> i < n \<or> snd acc = Some i)" for n acc
  proof (induction n)
    case 0
    then show ?case by (simp split: option.splits)
  next
    case (Suc n)
    then show ?case
      by (auto simp add: ratioStep_def Let_def split: option.splits if_splits)
  qed
  from this [of "length tab" "(None, None)"]
  show "findPivotRow tab pivotCol tv = Some pivotRow \<Longrightarrow> pivotRow < length tab"
    by (simp add: findPivotRow_def)
qed

lemma findDualPivotRow_bound:
  "findDualPivotRow tab tv = Some pivotRow \<Longrightarrow> pivotRow < length tab"
proof -
  have "(case snd (fold (\<lambda>i (minRHS, pivotRow).
                  if tab ! i ! tv < minRHS then (tab ! i ! tv, Some i) else (minRHS, pivotRow))
            [0..<n] acc) of
           None \<Rightarrow> True | Some i \<Rightarrow> i < n \<or> snd acc = Some i)" for n acc
  proof (induction n)
    case 0
    then show ?case by (simp split: option.splits)
  next
    case (Suc n)
    then show ?case
      by (auto simp add: case_prod_beta split: option.splits if_splits)
  qed
  from this [of "length tab" "(0, None)"]
  show "findDualPivotRow tab tv = Some pivotRow \<Longrightarrow> pivotRow < length tab"
    by (simp add: findDualPivotRow_def)
qed

lemma list_all_update: "list_all P xs \<Longrightarrow> P x \<Longrightarrow> list_all P (xs[i := x])"
  unfolding list_all_iff using set_update_subset_insert [of xs i x] by auto

lemma subtractRow_rows:
  "list_all (\<lambda>row. length row = n) t \<Longrightarrow>
   list_all (\<lambda>row. length row = n)
     (fold (\<lambda>i t. if i \<noteq> pivotRow
                     then t[i := subtractRow (t ! i ! pivotCol) prow tv (t ! i)] else t) js t)"
proof (induction js arbitrary: t)
  case Nil
  then show ?case by simp
next
  case (Cons j js)
  have "list_all (\<lambda>row. length row = n) (t[j := subtractRow (t ! j ! pivotCol) prow tv (t ! j)])"
    if "j < length t"
    using Cons.prems that
    by (intro list_all_update) (simp_all add: subtractRow_length list_all_length)
  then have "list_all (\<lambda>row. length row = n)
      (if j \<noteq> pivotRow then t[j := subtractRow (t ! j ! pivotCol) prow tv (t ! j)] else t)"
    using Cons.prems by (cases "j < length t") (simp_all add: list_update_beyond)
  then show ?case using Cons.IH by simp
qed

lemma pivot_rows_length:
  assumes "list_all (\<lambda>row. length row = n) tab" and "pivotRow < length tab"
  shows "list_all (\<lambda>row. length row = n) (fst (pivot tab z pivotRow pivotCol bvs tv))"
proof -
  define prow where "prow = fold (\<lambda>j r. r[j := r ! j / tab ! pivotRow ! pivotCol]) [0..<tv + 1]
                               (tab ! pivotRow)"
  have "length prow = n"
    unfolding prow_def using assms
    by (simp add: fold_update_length [of "\<lambda>j x. x / tab ! pivotRow ! pivotCol"] list_all_length)
  then have "list_all (\<lambda>row. length row = n) (tab[pivotRow := prow])"
    using assms(1) by (intro list_all_update) simp_all
  then have "list_all (\<lambda>row. length row = n)
     (fold (\<lambda>i t. if i \<noteq> pivotRow
                     then t[i := subtractRow (t ! i ! pivotCol) prow tv (t ! i)] else t)
        [0..<length (tab[pivotRow := prow])] (tab[pivotRow := prow]))"
    by (rule subtractRow_rows)
  then show ?thesis
    unfolding pivot_def Let_def fst_conv prow_def .
qed

lemma tableauInv_applyPivot:
  assumes "tableauInv tv s" and "pivotRow < length (tableau s)" and "pivotCol < tv"
    and "tableau s ! pivotRow ! pivotCol \<noteq> 0"
  shows "tableauInv tv (applyPivot tv pivotRow pivotCol s)"
proof -
  from assms(1) have l: "length (basicVars s) = length (tableau s)"
    and rows: "list_all (\<lambda>row. length row = tv + 1) (tableau s)"
    and b: "list_all (\<lambda>b. b < tv) (basicVars s)"
    and id: "basisIdentity (tableau s) (basicVars s)"
    by (simp_all add: tableauInv_def)
  let ?tab = "fst (pivot (tableau s) (zRow s) pivotRow pivotCol (basicVars s) tv)"
  let ?bvs = "(basicVars s)[pivotRow := pivotCol]"
  have ap: "tableau (applyPivot tv pivotRow pivotCol s) = ?tab"
    "basicVars (applyPivot tv pivotRow pivotCol s) = ?bvs"
    by (simp_all add: applyPivot_def case_prod_beta pivot_basicVars)
  have "basisIdentity ?tab ?bvs"
    unfolding basisIdentity_iff
    using pivot_basic_column [OF rows l b assms(2,3,4) id]
    by (simp add: pivot_tableau_length l)
  moreover have "list_all (\<lambda>b. b < tv) ?bvs"
    using b assms(3) by (intro list_all_update) simp_all
  ultimately show ?thesis
    unfolding tableauInv_def ap
    using pivot_rows_length [OF rows assms(2)] l by (simp add: pivot_tableau_length)
qed

lemma tableauInv_iter:
  assumes "tableauInv tv s"
  shows "case iter tv arts s of Break s' \<Rightarrow> tableauInv tv s' | Continue s' \<Rightarrow> tableauInv tv s'"
proof -
  have same: "\<And>f. tableauInv tv (s\<lparr> steps := f \<rparr>)" "\<And>b. tableauInv tv (s\<lparr> useDualSimplex := b \<rparr>)"
    using assms by (simp_all add: tableauInv_def)
  have p1: "tableauInv tv (applyPivot tv pr pc s)"
    if "findPivotColumn (zRow s) tv = Some pc" "findPivotRow (tableau s) pc tv = Some pr" for pr pc
    using findPivotColumn_bound [OF that(1)] findPivotRow_bound [OF that(2)]
      findPivotRow_positive [OF that(2)] assms
    by (intro tableauInv_applyPivot) simp_all
  have p2: "tableauInv tv (applyPivot tv pr pc s)"
    if "findDualPivotRow (tableau s) tv = Some pr"
      "findDualPivotCol (tableau s) (zRow s) pr tv = Some pc" for pr pc
    using findDualPivotRow_bound [OF that(1)] findDualPivotCol_negative [OF that(2)] assms
    by (intro tableauInv_applyPivot) simp_all
  show ?thesis
    unfolding iter_def
    by (auto simp add: same p1 p2 split: option.splits)
qed

lemma tableauInv_loop:
  "tableauInv tv s \<Longrightarrow> tableauInv tv (simplex_loop tv arts iteration s)"
proof (induction tv arts iteration s rule: simplex_loop.induct)
  case (1 tv arts iteration s)
  show ?case
  proof (cases "iteration < maxIterations")
    case False
    then show ?thesis using "1.prems" by (simp add: simplex_loop.simps [of tv arts iteration])
  next
    case True
    show ?thesis
    proof (cases "iter tv arts s")
      case (Break s')
      then show ?thesis
        using True tableauInv_iter [OF "1.prems", of arts]
        by (simp add: simplex_loop.simps [of tv arts iteration])
    next
      case (Continue s')
      then have "tableauInv tv s'" using tableauInv_iter [OF "1.prems", of arts] by simp
      then show ?thesis
        using True Continue "1.IH" [OF True Continue]
        by (simp add: simplex_loop.simps [of tv arts iteration])
    qed
  qed
qed

lemma basisIdentity_distinct:
  assumes "basisIdentity tab bvs" and "length bvs = length tab"
  shows "distinct bvs"
  unfolding distinct_conv_nth
proof (intro allI impI)
  fix i j assume ij: "i < length bvs" "j < length bvs" "i \<noteq> j"
  show "bvs ! i \<noteq> bvs ! j"
  proof
    assume e: "bvs ! i = bvs ! j"
    have "tab ! i ! (bvs ! i) = 1" "tab ! i ! (bvs ! j) = 0"
      using assms ij by (simp_all add: basisIdentity_iff)
    then show False using e by simp
  qed
qed

lemma solve_tableauInv:
  "length (res_basicVars (solve numVars data)) = length (res_tableau (solve numVars data))"
  "basisIdentity (res_tableau (solve numVars data)) (res_basicVars (solve numVars data))"
  "distinct (res_basicVars (solve numVars data))"
  "list_all (\<lambda>b. b < totalVars (buildTableau numVars data)) (res_basicVars (solve numVars data))"
proof -
  define st where "st = buildTableau numVars data"
  define s where "s = simplex_loop (totalVars st) (artificialVarIndices st) 0 (initState st)"
  have "tableauInv (totalVars st) s"
    unfolding s_def st_def by (intro tableauInv_loop buildTableau_tableauInv)
  moreover have "res_basicVars (solve numVars data) = basicVars s"
    "res_tableau (solve numVars data) = tableau s"
    by (simp_all add: solve_def Let_def s_def st_def)
  ultimately show
    "length (res_basicVars (solve numVars data)) = length (res_tableau (solve numVars data))"
    "basisIdentity (res_tableau (solve numVars data)) (res_basicVars (solve numVars data))"
    "distinct (res_basicVars (solve numVars data))"
    "list_all (\<lambda>b. b < totalVars (buildTableau numVars data)) (res_basicVars (solve numVars data))"
    using basisIdentity_distinct [of "tableau s" "basicVars s"]
    by (simp_all add: tableauInv_def st_def)
qed

subsection \<open>Solution extraction\<close>

lemma nameVars_extends:
  "\<exists>ext. fst (nameVars cs (names, a, b, c, arts)) = names @ ext
         \<and> list_all (\<lambda>v. \<not> isX v) ext
         \<and> length ext = slackCount cs + surplusCount cs + artificialCount cs"
proof (induction cs arbitrary: names a b c arts)
  case Nil
  then show ?case by (simp add: slackCount_def surplusCount_def artificialCount_def)
next
  case (Cons con cs)
  show ?case
  proof (cases "ctype con")
    case Le
    from Cons [of "names @ [S a]" "a + 1" b c arts]
    obtain ext where "fst (nameVars cs (names @ [S a], a + 1, b, c, arts)) = (names @ [S a]) @ ext"
      "list_all (\<lambda>v. \<not> isX v) ext"
      "length ext = slackCount cs + surplusCount cs + artificialCount cs" by blast
    then show ?thesis using Le
      by (intro exI [of _ "S a # ext"]) (simp add: slackCount_def surplusCount_def artificialCount_def)
  next
    case Ge
    from Cons [of "names @ [E b, A c]" a "b + 1" "c + 1" "arts @ [length names + 1]"]
    obtain ext where
      "fst (nameVars cs (names @ [E b, A c], a, b + 1, c + 1, arts @ [length names + 1]))
         = (names @ [E b, A c]) @ ext"
      "list_all (\<lambda>v. \<not> isX v) ext"
      "length ext = slackCount cs + surplusCount cs + artificialCount cs" by blast
    then show ?thesis using Ge
      by (intro exI [of _ "E b # A c # ext"])
        (simp add: slackCount_def surplusCount_def artificialCount_def)
  next
    case Eq
    from Cons [of "names @ [A c]" a b "c + 1" "arts @ [length names]"]
    obtain ext where
      "fst (nameVars cs (names @ [A c], a, b, c + 1, arts @ [length names])) = (names @ [A c]) @ ext"
      "list_all (\<lambda>v. \<not> isX v) ext"
      "length ext = slackCount cs + surplusCount cs + artificialCount cs" by blast
    then show ?thesis using Eq
      by (intro exI [of _ "A c # ext"]) (simp add: slackCount_def surplusCount_def artificialCount_def)
  qed
qed

lemma buildTableau_totalVars:
  "totalVars (buildTableau numVars data) =
     numVars + slackCount (constraints data) + surplusCount (constraints data)
       + artificialCount (constraints data)"
  by (simp add: buildTableau_def Let_def case_prod_beta)

lemma buildTableau_varNames:
  "\<exists>ext. varNames (buildTableau numVars data) = map (\<lambda>j. X (j + 1)) [0..<numVars] @ ext
         \<and> list_all (\<lambda>v. \<not> isX v) ext
         \<and> length ext + numVars = totalVars (buildTableau numVars data)"
proof -
  obtain ext where "fst (nameVars (constraints data) (map (\<lambda>j. X (j + 1)) [0..<numVars], 1, 1, 1, []))
                      = map (\<lambda>j. X (j + 1)) [0..<numVars] @ ext"
      "list_all (\<lambda>v. \<not> isX v) ext"
      "length ext = slackCount (constraints data) + surplusCount (constraints data)
                      + artificialCount (constraints data)"
    using nameVars_extends by blast
  then show ?thesis
    by (intro exI [of _ ext]) (simp add: buildTableau_def Let_def case_prod_beta)
qed


lemma buildTableau_names_nth:
  "b < numVars \<Longrightarrow> varNames (buildTableau numVars data) ! b = X (Suc b)"
  "numVars \<le> b \<Longrightarrow> b < totalVars (buildTableau numVars data) \<Longrightarrow>
     \<not> isX (varNames (buildTableau numVars data) ! b)"
proof -
  obtain ext where e: "varNames (buildTableau numVars data) = map (\<lambda>j. X (j + 1)) [0..<numVars] @ ext"
    "list_all (\<lambda>v. \<not> isX v) ext" "length ext + numVars = totalVars (buildTableau numVars data)"
    using buildTableau_varNames by blast
  show "b < numVars \<Longrightarrow> varNames (buildTableau numVars data) ! b = X (Suc b)"
    by (simp add: e(1) nth_append)
  show "numVars \<le> b \<Longrightarrow> b < totalVars (buildTableau numVars data) \<Longrightarrow>
     \<not> isX (varNames (buildTableau numVars data) ! b)"
    using e(2,3) by (simp add: e(1) nth_append list_all_length)
qed

lemma extractSolution_assignBasic:
  assumes "list_all (\<lambda>b. b < totalVars (buildTableau numVars data)) bvs"
  shows "extractSolution tab bvs (varNames (buildTableau numVars data)) tv numVars =
           fold (assignBasic numVars tab bvs tv) [0..<length bvs]
             (map (\<lambda>j. (X (j + 1), 0)) [0..<numVars])"
  unfolding extractSolution_def
proof (rule fold_cong [OF refl refl])
  fix i assume "i \<in> set [0..<length bvs]"
  then have b: "bvs ! i < totalVars (buildTableau numVars data)"
    using assms by (simp add: list_all_length)
  show "(\<lambda>sol. case varNames (buildTableau numVars data) ! (bvs ! i) of
               X k \<Rightarrow> AList.update (X k) (round4 (tab ! i ! tv)) sol | _ \<Rightarrow> sol)
        = assignBasic numVars tab bvs tv i"
  proof (cases "bvs ! i < numVars")
    case True
    then show ?thesis by (simp add: assignBasic_def buildTableau_names_nth(1) fun_eq_iff)
  next
    case False
    then have "\<not> isX (varNames (buildTableau numVars data) ! (bvs ! i))"
      using buildTableau_names_nth(2) b by simp
    then show ?thesis using False
      by (cases "varNames (buildTableau numVars data) ! (bvs ! i)")
        (simp_all add: assignBasic_def fun_eq_iff)
  qed
qed

lemma assignBasic_other:
  "\<forall>i<n. bvs ! i \<noteq> j \<Longrightarrow>
   map_of (fold (assignBasic numVars tab bvs tv) [0..<n] sol) (X (Suc j)) = map_of sol (X (Suc j))"
  by (induction n) (auto simp add: assignBasic_def update_conv')

lemma assignBasic_basic:
  "distinct bvs \<Longrightarrow> n \<le> length bvs \<Longrightarrow> i < n \<Longrightarrow> bvs ! i < numVars \<Longrightarrow>
   map_of (fold (assignBasic numVars tab bvs tv) [0..<n] sol) (X (Suc (bvs ! i)))
     = Some (round4 (tab ! i ! tv))"
proof (induction n)
  case 0
  then show ?case by simp
next
  case (Suc n)
  show ?case
  proof (cases "i = n")
    case True
    then show ?thesis using Suc.prems by (simp add: assignBasic_def update_conv')
  next
    case False
    then have "i < n" using Suc.prems by simp
    moreover have "bvs ! n \<noteq> bvs ! i"
      using Suc.prems False by (simp add: nth_eq_iff_index_eq)
    ultimately show ?thesis using Suc by (simp add: assignBasic_def update_conv')
  qed
qed

lemma assignBasic_keys:
  "map fst sol = map (\<lambda>j. X (j + 1)) [0..<numVars] \<Longrightarrow>
   map fst (fold (assignBasic numVars tab bvs tv) [0..<n] sol) = map (\<lambda>j. X (j + 1)) [0..<numVars]"
  by (induction n) (auto simp add: assignBasic_def update_keys)

lemma buildTableau_wasMinimization:
  "wasMinimization (buildTableau numVars data) = (objType data = Min)"
  by (simp add: buildTableau_def Let_def case_prod_beta)

lemma initial_lookup:
  "map_of (map (\<lambda>j. (X (Suc j), 0 :: rat)) [0..<n]) (X (Suc j)) = (if j < n then Some 0 else None)"
  by (induction n) (simp_all add: map_add_def)

text \<open>
  Claim C6, as the code has it. In the result of \<open>solve\<close> (whose basic variables are
  distinct columns below \<open>totalVars\<close>): a decision variable that is basic in row \<open>i\<close>
  is reported as that row's right-hand side rounded to four decimals
  (\<open>Math.round(v * 10000) / 10000\<close>), a decision variable that is not basic is reported as
  zero, the solution has exactly the keys \<open>x1 .. xn\<close>, and the objective value is the
  Z-row's last entry, negated when the original sense was minimize.
\<close>

theorem extraction_rounded:
  "(\<forall>i < length (res_basicVars (solve numVars data)).
            res_basicVars (solve numVars data) ! i < numVars \<longrightarrow>
            map_of (res_solution (solve numVars data)) (X (res_basicVars (solve numVars data) ! i + 1))
              = Some (round4 (res_tableau (solve numVars data) ! i
                                ! totalVars (buildTableau numVars data))))
       \<and> (\<forall>j < numVars. j \<notin> set (res_basicVars (solve numVars data)) \<longrightarrow>
            map_of (res_solution (solve numVars data)) (X (j + 1)) = Some 0)
       \<and> map fst (res_solution (solve numVars data)) = map (\<lambda>j. X (j + 1)) [0..<numVars]
       \<and> res_finalZ (solve numVars data)
           = (if objType data = Min
              then - (res_zRow (solve numVars data) ! totalVars (buildTableau numVars data))
              else res_zRow (solve numVars data) ! totalVars (buildTableau numVars data))"
proof -
  define tv where "tv = totalVars (buildTableau numVars data)"
  define bvs where "bvs = res_basicVars (solve numVars data)"
  define tab where "tab = res_tableau (solve numVars data)"
  define init where "init = map (\<lambda>j. (X (j + 1), 0 :: rat)) [0..<numVars]"
  have d: "distinct bvs" and lt: "list_all (\<lambda>b. b < tv) bvs"
    using solve_tableauInv(3,4) [of numVars data] by (simp_all add: bvs_def tv_def)
  have "res_solution (solve numVars data)
          = extractSolution tab bvs (varNames (buildTableau numVars data)) tv numVars"
    by (simp add: solve_def Let_def tab_def bvs_def tv_def)
  then have sol: "res_solution (solve numVars data)
          = fold (assignBasic numVars tab bvs tv) [0..<length bvs] init"
    using extractSolution_assignBasic lt by (simp add: tv_def init_def)
  have init_j: "map_of init (X (Suc j)) = Some 0" if "j < numVars" for j
    using that by (simp add: init_def initial_lookup)
  have a: "map_of (res_solution (solve numVars data)) (X (bvs ! i + 1)) = Some (round4 (tab ! i ! tv))"
    if "i < length bvs" "bvs ! i < numVars" for i
    using assignBasic_basic [OF d le_refl that] by (simp add: sol)
  have b: "map_of (res_solution (solve numVars data)) (X (j + 1)) = Some 0"
    if "j < numVars" "j \<notin> set bvs" for j
  proof -
    have "\<forall>i<length bvs. bvs ! i \<noteq> j" using that(2) by auto
    then show ?thesis using assignBasic_other init_j [OF that(1)] by (simp add: sol)
  qed
  have c: "map fst (res_solution (solve numVars data)) = map (\<lambda>j. X (j + 1)) [0..<numVars]"
    unfolding sol by (rule assignBasic_keys) (simp add: init_def comp_def)
  have z: "res_finalZ (solve numVars data)
           = (if objType data = Min then - (res_zRow (solve numVars data) ! tv)
              else res_zRow (solve numVars data) ! tv)"
    by (simp add: solve_def Let_def tv_def buildTableau_wasMinimization)
  show ?thesis
    using a b c z unfolding tv_def bvs_def tab_def by blast
qed

theorem extraction_rounded_witness:
  "distinct (res_basicVars (solve 1 oneThird))
   \<and> res_basicVars (solve 1 oneThird) ! 0 = 0
   \<and> map_of (res_solution (solve 1 oneThird)) (X 1)
       = Some (round4 (res_tableau (solve 1 oneThird) ! 0 ! totalVars (buildTableau 1 oneThird)))
   \<and> res_finalZ (solve 1 oneThird) = res_zRow (solve 1 oneThird) ! totalVars (buildTableau 1 oneThird)"
proof -
  have bv: "res_basicVars (solve 1 oneThird) = [0]" by code_simp
  have tv: "totalVars (buildTableau 1 oneThird) = 2" by code_simp
  have mx: "objType oneThird = Max" by (simp add: oneThird_def)
  have h1: "distinct (res_basicVars (solve 1 oneThird))" unfolding bv by simp
  note t = extraction_rounded [of 1 oneThird, unfolded bv]
  from t have "map_of (res_solution (solve 1 oneThird)) (X ([0] ! 0 + 1))
       = Some (round4 (res_tableau (solve 1 oneThird) ! 0 ! totalVars (buildTableau 1 oneThird)))"
    by simp
  moreover from t have "res_finalZ (solve 1 oneThird)
      = res_zRow (solve 1 oneThird) ! totalVars (buildTableau 1 oneThird)"
    unfolding mx by simp
  ultimately show ?thesis using h1 unfolding bv by simp
qed

text \<open>
  The value reported is the rounded one: for maximize \<open>x1\<close> subject to \<open>3 x1 \<le> 1\<close> the
  basic variable of row 0 is \<open>x1\<close>, the row's right-hand side is \<open>1/3\<close>, and the reported
  value is \<open>0.3333\<close>.
\<close>

theorem extraction_exact_counterexample:
  "res_basicVars (solve 1 oneThird) = [0]
   \<and> res_tableau (solve 1 oneThird) ! 0 ! totalVars (buildTableau 1 oneThird) = 1 / 3
   \<and> map_of (res_solution (solve 1 oneThird)) (X 1) = Some (3333 / 10000)"
  by code_simp

subsection \<open>The iteration loop\<close>

lemma findPivotColumn_fold:
  "fold (\<lambda>j (minVal, pivotCol).
           if z ! j < minVal then (z ! j, Some j) else (minVal, pivotCol)) [0..<n] (0 :: rat, None)
     = (m, p)
   \<Longrightarrow> (if p = None then m = 0 \<and> list_all (\<lambda>j. \<not> z ! j < 0) [0..<n] else m < 0)"
proof (induction n arbitrary: m p)
  case 0
  then show ?case by simp
next
  case (Suc n)
  obtain m0 p0 where f: "fold (\<lambda>j (minVal, pivotCol).
           if z ! j < minVal then (z ! j, Some j) else (minVal, pivotCol)) [0..<n] (0, None) = (m0, p0)"
    by (cases "fold (\<lambda>j (minVal, pivotCol).
           if z ! j < minVal then (z ! j, Some j) else (minVal, pivotCol)) [0..<n] (0, None)")
  from Suc.IH [OF f] Suc.prems show ?case
    by (auto simp add: f split: if_splits)
qed

lemma findPivotColumn_None:
  "findPivotColumn z tv = None \<Longrightarrow> isOptimal z tv"
proof -
  assume a: "findPivotColumn z tv = None"
  obtain m p where f: "fold (\<lambda>j (minVal, pivotCol).
           if z ! j < minVal then (z ! j, Some j) else (minVal, pivotCol)) [0..<tv] (0, None) = (m, p)"
    by (cases "fold (\<lambda>j (minVal, pivotCol).
           if z ! j < minVal then (z ! j, Some j) else (minVal, pivotCol)) [0..<tv] (0, None)")
  with a have "p = None" by (simp add: findPivotColumn_def)
  with findPivotColumn_fold [OF f] have "list_all (\<lambda>j. \<not> z ! j < 0) [0..<tv]" by simp
  then show ?thesis
    unfolding isOptimal_def list_all_iff by force
qed

lemma applyPivot_steps:
  "steps (applyPivot tv pivotRow pivotCol s) = steps s @ [StPivot pivotRow pivotCol]"
  by (simp add: applyPivot_def case_prod_beta)

lemma iter_Break_optimal:
  "iter tv arts s = Break s' \<Longrightarrow> last (steps s') = StOptimal \<Longrightarrow> isOptimal (zRow s') tv"
  unfolding iter_def
  by (auto split: if_splits option.splits dest: findPivotColumn_None)

lemma iter_Continue_last:
  "iter tv arts s = Continue s' \<Longrightarrow>
   last (steps s') = last (steps s) \<or> (\<exists>r c. last (steps s') = StPivot r c)"
  unfolding iter_def
  by (auto split: if_splits option.splits simp add: applyPivot_steps)

lemma simplex_loop_optimal:
  "last (steps (simplex_loop tv arts i s)) = StOptimal \<Longrightarrow> last (steps s) \<noteq> StOptimal \<Longrightarrow>
   isOptimal (zRow (simplex_loop tv arts i s)) tv"
proof (induction tv arts i s rule: simplex_loop.induct)
  case (1 tv arts iteration s)
  show ?case
  proof (cases "iteration < maxIterations")
    case False
    then have "simplex_loop tv arts iteration s = s" by (simp add: simplex_loop.simps)
    then show ?thesis using "1.prems" by simp
  next
    case True
    show ?thesis
    proof (cases "iter tv arts s")
      case (Break s')
      then have "simplex_loop tv arts iteration s = s'"
        using True by (simp add: simplex_loop.simps)
      then show ?thesis using "1.prems" iter_Break_optimal [OF Break] by simp
    next
      case (Continue s')
      then have eq: "simplex_loop tv arts iteration s = simplex_loop tv arts (iteration + 1) s'"
        using True by (simp add: simplex_loop.simps)
      have "last (steps s') \<noteq> StOptimal"
        using iter_Continue_last [OF Continue] "1.prems"(2) by auto
      then show ?thesis
        using "1.IH" [OF True Continue] "1.prems"(1) unfolding eq by simp
    qed
  qed
qed

lemma solve_optimal_zRow:
  assumes "whatIfShown (solve numVars data)"
  shows "isOptimal (res_zRow (solve numVars data)) (totalVars (buildTableau numVars data))"
proof -
  define st where "st = buildTableau numVars data"
  define s where "s = simplex_loop (totalVars st) (artificialVarIndices st) 0 (initState st)"
  have "last (steps s) = StOptimal"
    using assms by (simp add: whatIfShown_def solve_def Let_def s_def st_def)
  moreover have "last (steps (initState st)) \<noteq> StOptimal"
    by (simp add: initState_def)
  ultimately have "isOptimal (zRow s) (totalVars st)"
    unfolding s_def by (rule simplex_loop_optimal)
  then show ?thesis by (simp add: solve_def Let_def s_def st_def)
qed

subsection \<open>What-if on an objective coefficient\<close>

text \<open>
  Claim C5, as the code has it. After a solve that ended with an \<open>optimal\<close> step (the
  what-if section is shown only then), a query that changes the objective coefficient of
  a decision variable to its current value reports, for a non-basic variable, that the
  current basis remains optimal, with the objective value that the final panel shows;
  for a basic variable it reports only the recommendation to re-solve.
\<close>

theorem whatif_noop:
  assumes "whatIfShown (solve numVars data)" and "varIdx < numVars"
  shows "analyzeChangeCj (res_basicVars (solve numVars data)) (res_zRow (solve numVars data))
           (res_finalZ (solve numVars data)) varIdx c c
         = (if varIdx \<in> set (res_basicVars (solve numVars data)) then ResolveRecommended
            else BasisRemainsOptimal (roundNum (res_finalZ (solve numVars data))))
       \<and> finalPanel (solve numVars data)
           = OptimalSolution (res_solution (solve numVars data))
               (roundNum (res_finalZ (solve numVars data)))"
proof -
  have "varIdx < totalVars (buildTableau numVars data)"
    using assms(2) by (simp add: buildTableau_totalVars)
  then have "\<not> res_zRow (solve numVars data) ! varIdx < - eps10"
    using solve_optimal_zRow [OF assms(1)] by (simp add: isOptimal_def list_all_iff)
  then have "analyzeChangeCj (res_basicVars (solve numVars data)) (res_zRow (solve numVars data))
           (res_finalZ (solve numVars data)) varIdx c c
         = (if varIdx \<in> set (res_basicVars (solve numVars data)) then ResolveRecommended
            else BasisRemainsOptimal (roundNum (res_finalZ (solve numVars data))))"
    by (simp add: analyzeChangeCj_def list_ex_iff not_less)
  moreover have "finalPanel (solve numVars data)
           = OptimalSolution (res_solution (solve numVars data))
               (roundNum (res_finalZ (solve numVars data)))"
    using assms(1) by (simp add: finalPanel_def whatIfShown_def)
  ultimately show ?thesis by simp
qed

theorem whatif_noop_witness:
  "whatIfShown (solve 2 oneRow)
   \<and> analyzeChangeCj (res_basicVars (solve 2 oneRow)) (res_zRow (solve 2 oneRow))
        (res_finalZ (solve 2 oneRow)) 1 2 2 = BasisRemainsOptimal (Num 12)
   \<and> finalPanel (solve 2 oneRow) = OptimalSolution [(X 1, 4), (X 2, 0)] (Num 12)"
proof -
  have shown: "whatIfShown (solve 2 oneRow)" by code_simp
  have bv: "res_basicVars (solve 2 oneRow) = [0]" by code_simp
  have z: "roundNum (res_finalZ (solve 2 oneRow)) = Num 12" by code_simp
  have sol: "res_solution (solve 2 oneRow) = [(X 1, 4), (X 2, 0)]" by code_simp
  have "(1 :: nat) < 2" by simp
  from whatif_noop [OF shown this, of 2] show ?thesis
    unfolding bv z sol using shown by simp
qed

text \<open>
  In Scenario A both decision variables are basic at the optimum; the no-op query on
  \<open>x1\<close> (from 3 to 3) is answered with the recommendation to re-solve.
\<close>

theorem whatif_noop_basic_counterexample:
  "whatIfShown (solve 2 scenarioA)
   \<and> res_basicVars (solve 2 scenarioA) = [1, 0]
   \<and> analyzeChangeCj (res_basicVars (solve 2 scenarioA)) (res_zRow (solve 2 scenarioA))
        (res_finalZ (solve 2 scenarioA)) 0 3 3 = ResolveRecommended"
  by code_simp

subsection \<open>The optimality test\<close>

lemma iterN_simplex_loop:
  "iterN n tv arts s0 = Some s \<Longrightarrow> i + n \<le> maxIterations \<Longrightarrow>
   simplex_loop tv arts i s0 = simplex_loop tv arts (i + n) s"
proof (induction n arbitrary: s0 i)
  case 0
  then show ?case by simp
next
  case (Suc n)
  from Suc.prems(1) obtain s1 where c: "iter tv arts s0 = Continue s1"
    and r: "iterN n tv arts s1 = Some s"
    by (auto split: ctl.splits)
  have "simplex_loop tv arts i s0 = simplex_loop tv arts (i + 1) s1"
    using Suc.prems(2) c by (simp add: simplex_loop.simps [of tv arts i])
  also have "\<dots> = simplex_loop tv arts (i + 1 + n) s"
    using Suc.IH [OF r, of "i + 1"] Suc.prems(2) by simp
  finally show ?case by simp
qed

lemma optimality_test_step:
  assumes "i < maxIterations"
    and "\<not> (useDualSimplex s \<and> hasNegativeRHS (tableau s))"
    and "isOptimal (zRow s) tv"
  shows "simplex_loop tv arts i s =
           s\<lparr> steps := steps s @
                [if hasArtificialInBasis (tableau s) (basicVars s) arts tv
                 then StInfeasible else StOptimal] \<rparr>"
proof -
  have "iter tv arts s =
          Break (s\<lparr> steps := steps s @
                [if hasArtificialInBasis (tableau s) (basicVars s) arts tv
                 then StInfeasible else StOptimal] \<rparr>)"
    using assms(2,3) unfolding iter_def by auto
  then show ?thesis
    using assms(1) by (simp add: simplex_loop.simps [of tv arts i])
qed

text \<open>
  Claim C2, as the code has it. For every input on which the loop ends at its optimality
  test, that is, after \<open>n < 100\<close> passes that all continue the state \<open>s\<close> takes the primal
  branch (dual Simplex is off, or no right-hand side is below \<open>-1e-10\<close>) and all Z-row
  entries are at least \<open>-1e-10\<close>: the result is read from \<open>s\<close>, and the engine reports
  Infeasible if and only if some row whose basic variable is artificial has a right-hand
  side of absolute value above \<open>1e-10\<close>; otherwise it reports the solution as optimal.
\<close>

theorem optimality_test_report:
  assumes run: "iterN n (totalVars (buildTableau numVars data))
                  (artificialVarIndices (buildTableau numVars data))
                  (initState (buildTableau numVars data)) = Some s"
    and n: "n < maxIterations"
    and primal: "\<not> (useDualSimplex s \<and> hasNegativeRHS (tableau s))"
    and opt: "isOptimal (zRow s) (totalVars (buildTableau numVars data))"
  shows "res_tableau (solve numVars data) = tableau s
       \<and> res_zRow (solve numVars data) = zRow s
       \<and> res_basicVars (solve numVars data) = basicVars s
       \<and> finalPanel (solve numVars data) =
           (if hasArtificialInBasis (tableau s) (basicVars s)
                 (artificialVarIndices (buildTableau numVars data))
                 (totalVars (buildTableau numVars data))
            then NoFeasibleSolution
            else OptimalSolution (res_solution (solve numVars data))
                   (roundNum (res_finalZ (solve numVars data))))
       \<and> (finalPanel (solve numVars data) = NoFeasibleSolution) =
           hasArtificialInBasis (tableau s) (basicVars s)
             (artificialVarIndices (buildTableau numVars data))
             (totalVars (buildTableau numVars data))"
proof -
  define st where "st = buildTableau numVars data"
  define final where "final = simplex_loop (totalVars st) (artificialVarIndices st) 0 (initState st)"
  have "final = simplex_loop (totalVars st) (artificialVarIndices st) (0 + n) s"
    unfolding final_def using run n
    by (intro iterN_simplex_loop) (simp_all add: st_def)
  then have final: "final = s\<lparr> steps := steps s @
                [if hasArtificialInBasis (tableau s) (basicVars s) (artificialVarIndices st)
                      (totalVars st)
                 then StInfeasible else StOptimal] \<rparr>"
    using optimality_test_step [OF n primal, of "totalVars st" "artificialVarIndices st"] opt
    by (simp add: st_def)
  have r: "res_tableau (solve numVars data) = tableau final"
      "res_zRow (solve numVars data) = zRow final"
      "res_basicVars (solve numVars data) = basicVars final"
      "res_steps (solve numVars data) = steps final"
    by (simp_all add: solve_def Let_def final_def st_def)
  show ?thesis
    unfolding r st_def [symmetric]
    by (simp add: final finalPanel_def r(4))
qed

theorem optimality_test_report_witness:
  "finalPanel (solve 2 scenarioB) = NoFeasibleSolution
   \<and> hasArtificialInBasis (res_tableau (solve 2 scenarioB)) (res_basicVars (solve 2 scenarioB))
        (artificialVarIndices (buildTableau 2 scenarioB)) (totalVars (buildTableau 2 scenarioB))
   \<and> isOptimal (res_zRow (solve 2 scenarioB)) (totalVars (buildTableau 2 scenarioB))"
proof -
  define s where "s = \<lparr> tableau = [[0, 0, 1, - 1, - 1, 4], [1, 0, 0, 1, 0, 3], [0, 1, 0, 0, 1, 3]],
      zRow = [0, 0, 0, 1000001, 1000001, - 3999994], basicVars = [2, 0, 1],
      useDualSimplex = False, steps = [StInitial, StPivot 1 0, StPivot 2 1] \<rparr>"
  have run: "iterN 2 (totalVars (buildTableau 2 scenarioB))
                  (artificialVarIndices (buildTableau 2 scenarioB))
                  (initState (buildTableau 2 scenarioB)) = Some s"
    unfolding s_def by code_simp
  have n: "(2 :: nat) < maxIterations" by simp
  have primal: "\<not> (useDualSimplex s \<and> hasNegativeRHS (tableau s))"
    by (simp add: s_def)
  have opt: "isOptimal (zRow s) (totalVars (buildTableau 2 scenarioB))"
    unfolding s_def by code_simp
  have art: "hasArtificialInBasis (tableau s) (basicVars s)
        (artificialVarIndices (buildTableau 2 scenarioB)) (totalVars (buildTableau 2 scenarioB))"
    unfolding s_def by code_simp
  from optimality_test_report [OF run n primal opt] art opt
  show ?thesis by simp
qed

text \<open>
  The dual-Simplex branch reports Infeasible on its own. For minimize \<open>x1\<close> subject to
  \<open>x1 \<le> -1\<close> the loop ends there: every Z-row entry is non-negative, the report is
  Infeasible, and the problem has no artificial variable at all.
\<close>

theorem dual_infeasible_counterexample:
  "isOptimal (res_zRow (solve 1 negativeRhs)) (totalVars (buildTableau 1 negativeRhs))
   \<and> finalPanel (solve 1 negativeRhs) = NoFeasibleSolution
   \<and> artificialVarIndices (buildTableau 1 negativeRhs) = []
   \<and> \<not> hasArtificialInBasis (res_tableau (solve 1 negativeRhs))
          (res_basicVars (solve 1 negativeRhs)) (artificialVarIndices (buildTableau 1 negativeRhs))
          (totalVars (buildTableau 1 negativeRhs))"
  by code_simp

subsection \<open>The iteration cap\<close>

lemma iterN_not_terminal:
  "iterN n tv arts s0 = Some s \<Longrightarrow> \<not> isTerminal (last (steps s0)) \<Longrightarrow>
   \<not> isTerminal (last (steps s))"
proof (induction n arbitrary: s0)
  case 0
  then show ?case by simp
next
  case (Suc n)
  from Suc.prems(1) obtain s1 where c: "iter tv arts s0 = Continue s1"
    and r: "iterN n tv arts s1 = Some s"
    by (auto split: ctl.splits)
  have "\<not> isTerminal (last (steps s1))"
    using iter_Continue_last [OF c] Suc.prems(2) by auto
  then show ?case using Suc.IH [OF r] by simp
qed

lemma cap_exit:
  assumes "iterN maxIterations (totalVars (buildTableau numVars data))
             (artificialVarIndices (buildTableau numVars data))
             (initState (buildTableau numVars data)) = Some s"
  shows "res_steps (solve numVars data) = steps s"
    and "res_tableau (solve numVars data) = tableau s"
    and "res_zRow (solve numVars data) = zRow s"
    and "res_basicVars (solve numVars data) = basicVars s"
    and "\<not> isTerminal (last (steps s))"
proof -
  define st where "st = buildTableau numVars data"
  have "simplex_loop (totalVars st) (artificialVarIndices st) 0 (initState st)
          = simplex_loop (totalVars st) (artificialVarIndices st) (0 + maxIterations) s"
    using assms by (intro iterN_simplex_loop) (simp_all add: st_def)
  then have final: "simplex_loop (totalVars st) (artificialVarIndices st) 0 (initState st) = s"
    by (simp add: simplex_loop.simps [of _ _ maxIterations])
  show "res_steps (solve numVars data) = steps s"
    and "res_tableau (solve numVars data) = tableau s"
    and "res_zRow (solve numVars data) = zRow s"
    and "res_basicVars (solve numVars data) = basicVars s"
    using final by (simp_all add: solve_def Let_def st_def)
  have "\<not> isTerminal (last (steps (initState (buildTableau numVars data))))"
    by (simp add: initState_def)
  with assms show "\<not> isTerminal (last (steps s))"
    by (rule iterN_not_terminal)
qed

lemma finalPanel_not_terminal:
  "\<not> isTerminal (last (res_steps r)) \<Longrightarrow>
   finalPanel r = OptimalSolution (res_solution r) (roundNum (res_finalZ r)) \<and> \<not> whatIfShown r"
  by (cases "last (res_steps r)") (simp_all add: finalPanel_def whatIfShown_def)

text \<open>
  Claim C4, as the code has it. For every input whose loop reaches the cap of 100
  iterations without concluding (100 passes that all continue), the engine returns
  silently: the final panel presents the last tableau's state exactly as it presents an
  optimal result, with the solution and the objective value read from that tableau, and
  no non-convergence condition is reported; only the what-if section stays hidden.
\<close>

theorem cap_reported_as_optimal:
  assumes "iterN maxIterations (totalVars (buildTableau numVars data))
             (artificialVarIndices (buildTableau numVars data))
             (initState (buildTableau numVars data)) = Some s"
  shows "finalPanel (solve numVars data)
           = OptimalSolution (res_solution (solve numVars data))
               (roundNum (res_finalZ (solve numVars data)))
       \<and> res_tableau (solve numVars data) = tableau s
       \<and> res_zRow (solve numVars data) = zRow s
       \<and> res_basicVars (solve numVars data) = basicVars s
       \<and> \<not> whatIfShown (solve numVars data)"
  using cap_exit [OF assms] finalPanel_not_terminal [of "solve numVars data"] by simp

text \<open>The cycling problem: each state leads to the next, and the sixth to the first.\<close>

lemma cycle_step0: "iter 7 [] (cyc0 st) = Continue (cyc1 (st @ [StPivot 0 0]))"
  unfolding cyc0_def cyc1_def iter_def
  by (simp add: hasNegativeRHS_def isOptimal_def findPivotColumn_def findPivotRow_def ratioStep_def
      applyPivot_def pivot_def subtractRow_def upt_rec Let_def)

lemma cycle_step1: "iter 7 [] (cyc1 st) = Continue (cyc2 (st @ [StPivot 1 1]))"
  unfolding cyc1_def cyc2_def iter_def
  by (simp add: hasNegativeRHS_def isOptimal_def findPivotColumn_def findPivotRow_def ratioStep_def
      applyPivot_def pivot_def subtractRow_def upt_rec Let_def)

lemma cycle_step2: "iter 7 [] (cyc2 st) = Continue (cyc3 (st @ [StPivot 0 2]))"
  unfolding cyc2_def cyc3_def iter_def
  by (simp add: hasNegativeRHS_def isOptimal_def findPivotColumn_def findPivotRow_def ratioStep_def
      applyPivot_def pivot_def subtractRow_def upt_rec Let_def)

lemma cycle_step3: "iter 7 [] (cyc3 st) = Continue (cyc4 (st @ [StPivot 1 3]))"
  unfolding cyc3_def cyc4_def iter_def
  by (simp add: hasNegativeRHS_def isOptimal_def findPivotColumn_def findPivotRow_def ratioStep_def
      applyPivot_def pivot_def subtractRow_def upt_rec Let_def)

lemma cycle_step4: "iter 7 [] (cyc4 st) = Continue (cyc5 (st @ [StPivot 0 4]))"
  unfolding cyc4_def cyc5_def iter_def
  by (simp add: hasNegativeRHS_def isOptimal_def findPivotColumn_def findPivotRow_def ratioStep_def
      applyPivot_def pivot_def subtractRow_def upt_rec Let_def)

lemma cycle_step5: "iter 7 [] (cyc5 st) = Continue (cyc0 (st @ [StPivot 1 5]))"
  unfolding cyc5_def cyc0_def iter_def
  by (simp add: hasNegativeRHS_def isOptimal_def findPivotColumn_def findPivotRow_def ratioStep_def
      applyPivot_def pivot_def subtractRow_def upt_rec Let_def)


lemma iterN_add:
  "iterN (a + b) tv arts s =
     (case iterN a tv arts s of None \<Rightarrow> None | Some s' \<Rightarrow> iterN b tv arts s')"
  by (induction a arbitrary: s) (simp_all split: ctl.splits)

lemma cycle_once: "iterN 6 7 [] (cyc0 st) = Some (cyc0 (st @ cycleSteps))"
proof -
  have "iterN (Suc (Suc (Suc (Suc (Suc (Suc 0)))))) 7 [] (cyc0 st) = Some (cyc0 (st @ cycleSteps))"
    by (simp add: cycle_step0 cycle_step1 cycle_step2 cycle_step3 cycle_step4 cycle_step5
        cycleSteps_def)
  then show ?thesis by (simp add: eval_nat_numeral)
qed

lemma cycle_many: "iterN (6 * k) 7 [] (cyc0 st) = Some (cyc0 (st @ concat (replicate k cycleSteps)))"
proof (induction k arbitrary: st)
  case 0
  then show ?case by simp
next
  case (Suc k)
  have "iterN (6 + 6 * k) 7 [] (cyc0 st) = Some (cyc0 ((st @ cycleSteps) @ concat (replicate k cycleSteps)))"
    unfolding iterN_add cycle_once using Suc [of "st @ cycleSteps"] by simp
  then show ?case by simp
qed

lemma cycle_rest:
  "iterN 4 7 [] (cyc0 st) = Some (cyc4 (st @ [StPivot 0 0, StPivot 1 1, StPivot 0 2, StPivot 1 3]))"
proof -
  have "iterN (Suc (Suc (Suc (Suc 0)))) 7 [] (cyc0 st)
          = Some (cyc4 (st @ [StPivot 0 0, StPivot 1 1, StPivot 0 2, StPivot 1 3]))"
    by (simp add: cycle_step0 cycle_step1 cycle_step2 cycle_step3)
  then show ?thesis by (simp add: eval_nat_numeral)
qed

lemma cycling_cap:
  "iterN maxIterations 7 [] (cyc0 st)
     = Some (cyc4 (st @ concat (replicate 16 cycleSteps)
                     @ [StPivot 0 0, StPivot 1 1, StPivot 0 2, StPivot 1 3]))"
proof -
  have "iterN (6 * 16 + 4) 7 [] (cyc0 st)
     = Some (cyc4 (st @ concat (replicate 16 cycleSteps)
                     @ [StPivot 0 0, StPivot 1 1, StPivot 0 2, StPivot 1 3]))"
    unfolding iterN_add cycle_many by (simp add: cycle_rest)
  then show ?thesis by simp
qed

lemma cycling_setup:
  "totalVars (buildTableau 4 cycling) = 7"
  "artificialVarIndices (buildTableau 4 cycling) = []"
  "initState (buildTableau 4 cycling) = cyc0 [StInitial]"
  "varNames (buildTableau 4 cycling) = [X 1, X 2, X 3, X 4, S 1, S 2, S 3]"
  "wasMinimization (buildTableau 4 cycling) = False"
  unfolding cyc0_def by code_simp+

lemma cycling_run:
  "iterN maxIterations (totalVars (buildTableau 4 cycling))
     (artificialVarIndices (buildTableau 4 cycling)) (initState (buildTableau 4 cycling))
     = Some (cyc4 ([StInitial] @ concat (replicate 16 cycleSteps)
                     @ [StPivot 0 0, StPivot 1 1, StPivot 0 2, StPivot 1 3]))"
  unfolding cycling_setup by (rule cycling_cap)

theorem cap_reported_as_optimal_witness:
  "iterN maxIterations (totalVars (buildTableau 4 cycling))
     (artificialVarIndices (buildTableau 4 cycling)) (initState (buildTableau 4 cycling))
     = Some (cyc4 ([StInitial] @ concat (replicate 16 cycleSteps)
                     @ [StPivot 0 0, StPivot 1 1, StPivot 0 2, StPivot 1 3]))
   \<and> finalPanel (solve 4 cycling)
       = OptimalSolution (res_solution (solve 4 cycling)) (roundNum (res_finalZ (solve 4 cycling)))
   \<and> res_basicVars (solve 4 cycling) = [2, 3, 6]"
  using cap_reported_as_optimal [OF cycling_run] cycling_run by (simp add: cyc4_def)

text \<open>
  On the cycling problem the loop makes 100 pivots and stops at the cap; the final panel
  is the optimal-solution panel with all variables at 0 and \<open>Z = 0\<close>, although the Z-row
  of the last tableau still has a negative entry.
\<close>

theorem cap_silent_counterexample:
  "iterN maxIterations (totalVars (buildTableau 4 cycling))
     (artificialVarIndices (buildTableau 4 cycling)) (initState (buildTableau 4 cycling)) \<noteq> None
   \<and> finalPanel (solve 4 cycling)
       = OptimalSolution [(X 1, 0), (X 2, 0), (X 3, 0), (X 4, 0)] (Num 0)
   \<and> \<not> isOptimal (res_zRow (solve 4 cycling)) (totalVars (buildTableau 4 cycling))"
proof -
  note e = cap_exit [OF cycling_run]
  have sol: "res_solution (solve 4 cycling) = [(X 1, 0), (X 2, 0), (X 3, 0), (X 4, 0)]"
  proof -
    have "res_solution (solve 4 cycling)
            = extractSolution (res_tableau (solve 4 cycling)) (res_basicVars (solve 4 cycling))
                (varNames (buildTableau 4 cycling)) (totalVars (buildTableau 4 cycling)) 4"
      by (simp add: solve_def Let_def)
    also have "\<dots> = [(X 1, 0), (X 2, 0), (X 3, 0), (X 4, 0)]"
      unfolding e cycling_setup cyc4_def lp_state.simps by code_simp
    finally show ?thesis .
  qed
  have "res_finalZ (solve 4 cycling) = res_zRow (solve 4 cycling) ! 7"
    by (simp add: solve_def Let_def cycling_setup)
  then have z: "res_finalZ (solve 4 cycling) = 0"
    unfolding e by (simp add: cyc4_def)
  have "roundNum 0 = Num 0" by (simp add: roundNum_def)
  then have panel: "finalPanel (solve 4 cycling)
       = OptimalSolution [(X 1, 0), (X 2, 0), (X 3, 0), (X 4, 0)] (Num 0)"
    using finalPanel_not_terminal [of "solve 4 cycling"] e(5) by (simp add: e(1) sol z)
  have "\<not> isOptimal (zRow (cyc4 st)) 7" for st
    unfolding cyc4_def lp_state.simps by code_simp
  then have "\<not> isOptimal (res_zRow (solve 4 cycling)) (totalVars (buildTableau 4 cycling))"
    unfolding e cycling_setup by simp
  then show ?thesis using panel cycling_run by simp
qed

section \<open>Properties of the Branch and Bound search\<close>

subsection \<open>Branching\<close>

text \<open>The test of \<open>getFractionalVar\<close> is the specification's: the two say the same.\<close>

lemma isFractional_iff_deviates: "isFractional v = deviates v"
proof
  assume f: "isFractional v"
  then have lo: "v - of_int \<lfloor>v\<rfloor> > eps6" and hi: "v - of_int \<lfloor>v\<rfloor> < 1 - eps6"
    by (simp_all add: isFractional_def Let_def)
  show "deviates v"
    unfolding deviates_def
  proof
    fix k :: int
    show "\<bar>v - of_int k\<bar> > eps6"
    proof (cases "k \<le> \<lfloor>v\<rfloor>")
      case True
      then have "(of_int k :: rat) \<le> of_int \<lfloor>v\<rfloor>" by simp
      then show ?thesis using lo by linarith
    next
      case False
      then have "\<lfloor>v\<rfloor> + 1 \<le> k" by simp
      then have "(of_int (\<lfloor>v\<rfloor> + 1) :: rat) \<le> of_int k" by (simp only: of_int_le_iff)
      then have "of_int \<lfloor>v\<rfloor> + 1 \<le> (of_int k :: rat)" by simp
      then show ?thesis using hi by linarith
    qed
  qed
next
  assume d: "deviates v"
  have a: "\<bar>v - of_int \<lfloor>v\<rfloor>\<bar> > eps6" using d unfolding deviates_def by blast
  have b: "\<bar>v - of_int (\<lfloor>v\<rfloor> + 1)\<bar> > eps6" using d unfolding deviates_def by blast
  have "of_int \<lfloor>v\<rfloor> \<le> v" "v < of_int \<lfloor>v\<rfloor> + 1" by linarith+
  then show "isFractional v"
    using a b by (simp add: isFractional_def Let_def)
qed

lemma getFractionalVar_Some:
  "\<exists>j \<in> set ivs. isFractional (sol ! j) \<Longrightarrow>
   \<exists>i. getFractionalVar ivs sol = Some (i, sol ! i) \<and> i \<in> set ivs \<and> isFractional (sol ! i)"
  by (induction ivs) auto

lemma getFractionalVar_least:
  "sorted ivs \<Longrightarrow> getFractionalVar ivs sol = Some (i, v) \<Longrightarrow> j \<in> set ivs \<Longrightarrow> j < i \<Longrightarrow>
   \<not> isFractional (sol ! j)"
  by (induction ivs) (auto split: if_splits)

lemma sorted_collectIntegerVars: "sorted (collectIntegerVars numVars checked)"
  by (simp add: collectIntegerVars_def sorted_wrt_filter)

text \<open>
  Claim C3. When the relaxation of the node at the front of the queue is feasible, the
  node is not pruned, and some integer-designated variable's relaxed value deviates from
  every integer by more than \<open>1e-6\<close>: the search selects the first such variable \<open>i\<close> in
  index order, with value \<open>v\<close>; after the node is processed the queue is the rest of the
  queue followed by exactly two new nodes, whose extra constraints are the node's
  followed by \<open>x_i \<le> \<lfloor>v\<rfloor>\<close> and by \<open>x_i \<ge> \<lceil>v\<rceil>\<close>; and the search goes on from that
  state, taking nodes from the front.
\<close>

theorem branch_first_fractional:
  assumes ivs: "integerVars p = collectIntegerVars (bb_numVars p) checked"
    and relax: "solveLP (bb_numVars p) (isMaximization p) (bb_objCoeffs p) (bb_constraints p)
                  (extraConstraints nd) = Feasible sol z"
    and notPruned: "\<not> (bestSolution s \<noteq> None \<and> dominated (isMaximization p) z (bestZ s))"
    and frac: "\<exists>j \<in> set (integerVars p). deviates (sol ! j)"
    and q: "queue s = nd # rest"
  shows "\<exists>i. getFractionalVar (integerVars p) sol = Some (i, sol ! i)
           \<and> i \<in> set (integerVars p) \<and> deviates (sol ! i)
           \<and> (\<forall>j \<in> set (integerVars p). j < i \<longrightarrow> \<not> deviates (sol ! j))
           \<and> queue (processNode p nd (s\<lparr> queue := rest \<rparr>)) =
               rest @
               [\<lparr> nid = nodeId s,
                   extraConstraints = extraConstraints nd @
                     [\<lparr> coeffs = (replicate (bb_numVars p) 0)[i := 1], ctype = Le,
                        rhs = of_int \<lfloor>sol ! i\<rfloor> \<rparr>],
                   depth = depth nd + 1, parent = Some (nid nd),
                   branchInfo = Some (BranchOn (i + 1) Le \<lfloor>sol ! i\<rfloor>) \<rparr>,
                \<lparr> nid = nodeId s + 1,
                   extraConstraints = extraConstraints nd @
                     [\<lparr> coeffs = (replicate (bb_numVars p) 0)[i := 1], ctype = Ge,
                        rhs = of_int \<lceil>sol ! i\<rceil> \<rparr>],
                   depth = depth nd + 1, parent = Some (nid nd),
                   branchInfo = Some (BranchOn (i + 1) Ge \<lceil>sol ! i\<rceil>) \<rparr>]
           \<and> nodeId (processNode p nd (s\<lparr> queue := rest \<rparr>)) = nodeId s + 2
           \<and> bbLoop p s = bbLoop p (processNode p nd (s\<lparr> queue := rest \<rparr>))"
proof -
  from frac obtain i where g: "getFractionalVar (integerVars p) sol = Some (i, sol ! i)"
    and i: "i \<in> set (integerVars p)" "isFractional (sol ! i)"
    using getFractionalVar_Some [of "integerVars p" sol] by (auto simp add: isFractional_iff_deviates)
  have least: "\<forall>j \<in> set (integerVars p). j < i \<longrightarrow> \<not> deviates (sol ! j)"
    using getFractionalVar_least [OF _ g] sorted_collectIntegerVars [of "bb_numVars p" checked]
    by (auto simp add: ivs [symmetric] isFractional_iff_deviates [symmetric])
  have pn: "processNode p nd (s\<lparr> queue := rest \<rparr>) =
      s\<lparr> nodes := nodes s @
             [(nodeInfoOf nd StatusBranched None)
                \<lparr> info_solution := Some (map round4 sol), info_zValue := Some (round4 z),
                  info_fractionalVar := Some (i, sol ! i) \<rparr>],
         queue := rest @
               [\<lparr> nid = nodeId s,
                   extraConstraints = extraConstraints nd @
                     [unitConstraint (bb_numVars p) i Le \<lfloor>sol ! i\<rfloor>],
                   depth = depth nd + 1, parent = Some (nid nd),
                   branchInfo = Some (BranchOn (i + 1) Le \<lfloor>sol ! i\<rfloor>) \<rparr>,
                \<lparr> nid = nodeId s + 1,
                   extraConstraints = extraConstraints nd @
                     [unitConstraint (bb_numVars p) i Ge \<lceil>sol ! i\<rceil>],
                   depth = depth nd + 1, parent = Some (nid nd),
                   branchInfo = Some (BranchOn (i + 1) Ge \<lceil>sol ! i\<rceil>) \<rparr>],
         nodeId := nodeId s + 2 \<rparr>"
    using notPruned unfolding processNode_def relax by (auto simp add: g Let_def)
  have loop: "bbLoop p s = bbLoop p (processNode p nd (s\<lparr> queue := rest \<rparr>))"
    by (subst bbLoop.simps) (simp add: q)
  show ?thesis
    apply (rule exI [of _ i])
    using g i least loop by (simp add: pn unitConstraint_def isFractional_iff_deviates)
qed

theorem branch_first_fractional_witness:
  "solveLP 2 True [5, 4] (bb_constraints scenarioD) [] = Feasible [3, 3 / 2] 21
   \<and> getFractionalVar (integerVars scenarioD) [3, 3 / 2] = Some (1, 3 / 2)
   \<and> queue (processNode scenarioD
              \<lparr> nid = 0, extraConstraints = [], depth = 0, parent = None, branchInfo = None \<rparr>
              ((initSearch scenarioD)\<lparr> queue := [] \<rparr>)) =
         [\<lparr> nid = 1, extraConstraints = [\<lparr> coeffs = [0, 1], ctype = Le, rhs = 1 \<rparr>],
             depth = 1, parent = Some 0, branchInfo = Some (BranchOn 2 Le 1) \<rparr>,
          \<lparr> nid = 2, extraConstraints = [\<lparr> coeffs = [0, 1], ctype = Ge, rhs = 2 \<rparr>],
             depth = 1, parent = Some 0, branchInfo = Some (BranchOn 2 Ge 2) \<rparr>]"
proof -
  define root where
    "root = \<lparr> nid = 0, extraConstraints = [], depth = 0, parent = None, branchInfo = None \<rparr>"
  have ivs: "integerVars scenarioD = collectIntegerVars (bb_numVars scenarioD) (\<lambda>j. True)"
    by (simp add: scenarioD_def)
  have ivs2: "integerVars scenarioD = [0, 1]"
    by code_simp
  have lp: "solveLP 2 True [5, 4] (bb_constraints scenarioD) [] = Feasible [3, 3 / 2] 21"
    by code_simp
  then have relax: "solveLP (bb_numVars scenarioD) (isMaximization scenarioD) (bb_objCoeffs scenarioD)
      (bb_constraints scenarioD) (extraConstraints root) = Feasible [3, 3 / 2] 21"
    by (simp add: scenarioD_def root_def)
  have notPruned: "\<not> (bestSolution (initSearch scenarioD) \<noteq> None
      \<and> dominated (isMaximization scenarioD) 21 (bestZ (initSearch scenarioD)))"
    by (simp add: initSearch_def)
  have "\<bar>3 / 2 - of_int k\<bar> > eps6" for k :: int
  proof (cases "k \<le> 1")
    case True
    then have "(of_int k :: rat) \<le> 1" by simp
    then show ?thesis by linarith
  next
    case False
    then have "2 \<le> k" by simp
    then have "(2 :: rat) \<le> of_int k" by simp
    then show ?thesis by linarith
  qed
  then have "deviates ([3, 3 / 2] ! 1)" by (simp add: deviates_def)
  then have frac: "\<exists>j \<in> set (integerVars scenarioD). deviates ([3, 3 / 2] ! j)"
    unfolding ivs2 by simp
  have q: "queue (initSearch scenarioD) = root # []"
    by (simp add: initSearch_def root_def)
  have fl: "\<lfloor>3 / 2 :: rat\<rfloor> = 1" by (rule floor_unique) simp_all
  have ce: "\<lceil>3 / 2 :: rat\<rceil> = 2" by (rule ceiling_unique) simp_all
  have g: "getFractionalVar (integerVars scenarioD) [3, 3 / 2] = Some (1, 3 / 2)"
    unfolding ivs2 by (simp add: isFractional_def fl)
  from branch_first_fractional [OF ivs relax notPruned frac q] g
  have "queue (processNode scenarioD root ((initSearch scenarioD)\<lparr> queue := [] \<rparr>)) =
         [\<lparr> nid = 1, extraConstraints = [\<lparr> coeffs = [0, 1], ctype = Le, rhs = 1 \<rparr>],
             depth = 1, parent = Some 0, branchInfo = Some (BranchOn 2 Le 1) \<rparr>,
          \<lparr> nid = 2, extraConstraints = [\<lparr> coeffs = [0, 1], ctype = Ge, rhs = 2 \<rparr>],
             depth = 1, parent = Some 0, branchInfo = Some (BranchOn 2 Ge 2) \<rparr>]"
    by (auto simp add: root_def initSearch_def scenarioD_def fl ce numeral_2_eq_2)
  then show ?thesis using lp g by (simp add: root_def)
qed

subsection \<open>An unbounded root\<close>

lemma root_closed:
  assumes "solveLP (bb_numVars p) (isMaximization p) (bb_objCoeffs p) (bb_constraints p) [] = r"
    and "r = Unbounded \<or> r = NotFeasible"
  shows "branchAndBound p =
           Some \<lparr> res_bestSolution = None,
                  res_bestZ = (if isMaximization p then NegInfinity else PosInfinity),
                  res_nodes = [rootInfo (if r = Unbounded then MsgUnbounded else MsgInfeasible)] \<rparr>"
proof -
  define root where
    "root = \<lparr> nid = 0, extraConstraints = [], depth = 0, parent = None, branchInfo = None \<rparr>"
  define s1 where "s1 = (initSearch p)\<lparr> queue := [],
      nodes := [rootInfo (if r = Unbounded then MsgUnbounded else MsgInfeasible)] \<rparr>"
  have pn: "processNode p root ((initSearch p)\<lparr> queue := [] \<rparr>) = s1"
    using assms unfolding processNode_def
    by (auto simp add: root_def s1_def initSearch_def nodeInfoOf_def rootInfo_def)
  have "bbLoop p (initSearch p) = bbLoop p (processNode p root ((initSearch p)\<lparr> queue := [] \<rparr>))"
    by (subst bbLoop.simps) (simp add: initSearch_def root_def)
  also have "\<dots> = Some s1"
    unfolding pn by (subst bbLoop.simps) (simp add: s1_def)
  finally show ?thesis
    by (simp add: branchAndBound_def s1_def initSearch_def)
qed

text \<open>
  Claim C10. If the relaxation of the root node is unbounded, the search ends after that
  one node with no best solution, and the trace holds the root with status \<open>infeasible\<close>
  and message \<open>Unbounded\<close>; the final panel is the one for "no integer solution". Best
  solution, best value and final panel are the same as for a problem \<open>p'\<close> of the same
  sense whose root relaxation is infeasible.
\<close>

theorem unbounded_root_no_integer_solution:
  assumes unb: "solveLP (bb_numVars p) (isMaximization p) (bb_objCoeffs p) (bb_constraints p) []
                  = Unbounded"
    and inf: "solveLP (bb_numVars p') (isMaximization p') (bb_objCoeffs p') (bb_constraints p') []
                  = NotFeasible"
    and sense: "isMaximization p' = isMaximization p"
  shows "branchAndBound p =
           Some \<lparr> res_bestSolution = None,
                  res_bestZ = (if isMaximization p then NegInfinity else PosInfinity),
                  res_nodes = [rootInfo MsgUnbounded] \<rparr>
       \<and> map_option ilpPanel (branchAndBound p) = Some NoIntegerSolution
       \<and> map_option res_bestSolution (branchAndBound p') = map_option res_bestSolution (branchAndBound p)
       \<and> map_option res_bestZ (branchAndBound p') = map_option res_bestZ (branchAndBound p)
       \<and> map_option ilpPanel (branchAndBound p') = map_option ilpPanel (branchAndBound p)"
  using root_closed [OF unb] root_closed [OF inf] sense by (simp add: ilpPanel_def)

theorem unbounded_root_no_integer_solution_witness:
  "solveLP 1 True [1] (bb_constraints scenarioC) [] = Unbounded
   \<and> branchAndBound scenarioC =
        Some \<lparr> res_bestSolution = None, res_bestZ = NegInfinity,
               res_nodes = [rootInfo MsgUnbounded] \<rparr>
   \<and> map_option ilpPanel (branchAndBound scenarioC) = Some NoIntegerSolution
   \<and> map_option ilpPanel (branchAndBound scenarioB_ilp) = Some NoIntegerSolution"
proof -
  have lp: "solveLP 1 True [1] (bb_constraints scenarioC) [] = Unbounded" by code_simp
  then have unb: "solveLP (bb_numVars scenarioC) (isMaximization scenarioC) (bb_objCoeffs scenarioC)
      (bb_constraints scenarioC) [] = Unbounded"
    by (simp add: scenarioC_def)
  have "solveLP 2 True [1, 1] (bb_constraints scenarioB_ilp) [] = NotFeasible" by code_simp
  then have inf: "solveLP (bb_numVars scenarioB_ilp) (isMaximization scenarioB_ilp)
      (bb_objCoeffs scenarioB_ilp) (bb_constraints scenarioB_ilp) [] = NotFeasible"
    by (simp add: scenarioB_ilp_def)
  have sense: "isMaximization scenarioB_ilp = isMaximization scenarioC"
    by (simp add: scenarioB_ilp_def scenarioC_def)
  have mx: "isMaximization scenarioC" by (simp add: scenarioC_def)
  from unbounded_root_no_integer_solution [OF unb inf sense] lp mx
  show ?thesis by (auto simp add: ilpPanel_def)
qed

subsection \<open>The relaxation against the Simplex engine\<close>

lemma negativeRhsILP_search:
  "branchAndBound negativeRhsILP =
     Some \<lparr> res_bestSolution = Some [0], res_bestZ = Finite 0,
            res_nodes = [\<lparr> info_id = 0, info_depth = 0, info_parent = None,
                           info_branchInfo = None, info_extraConstraints = [],
                           info_status = StatusInteger, info_message = Some MsgInteger,
                           info_solution = Some [0], info_zValue = Some 0,
                           info_fractionalVar = None \<rparr>] \<rparr>"
proof -
  define root where
    "root = \<lparr> nid = 0, extraConstraints = [], depth = 0, parent = None, branchInfo = None \<rparr>"
  define s1 where "s1 = \<lparr> queue = [], nodeId = 1, bestSolution = Some [0], bestZ = Finite 0,
      nodes = [\<lparr> info_id = 0, info_depth = 0, info_parent = None,
                           info_branchInfo = None, info_extraConstraints = [],
                           info_status = StatusInteger, info_message = Some MsgInteger,
                           info_solution = Some [0], info_zValue = Some 0,
                           info_fractionalVar = None \<rparr>] \<rparr>"
  have pn: "processNode negativeRhsILP root ((initSearch negativeRhsILP)\<lparr> queue := [] \<rparr>) = s1"
    unfolding root_def s1_def by code_simp
  have "bbLoop negativeRhsILP (initSearch negativeRhsILP)
          = bbLoop negativeRhsILP
              (processNode negativeRhsILP root ((initSearch negativeRhsILP)\<lparr> queue := [] \<rparr>))"
    by (subst bbLoop.simps) (simp add: initSearch_def root_def)
  also have "\<dots> = Some s1"
    unfolding pn by (subst bbLoop.simps) (simp add: s1_def)
  finally show ?thesis
    by (simp add: branchAndBound_def s1_def)
qed

text \<open>
  Claim C8 fails on the code for a negative right-hand side. For maximize \<open>-x1\<close> subject
  to \<open>-x1 \<le> -1\<close> the relaxation solver of Branch and Bound has no dual-Simplex branch: it
  stops at the initial basis and returns \<open>x1 = 0\<close>, \<open>Z = 0\<close> as feasible, a point that
  violates the constraint. The Simplex engine takes the dual branch and ends with
  \<open>x1 = 1\<close>, \<open>Z = -1\<close>. The integer search built on the relaxation returns \<open>x1 = 0\<close>.
\<close>

theorem relaxation_without_dual_simplex:
  "solveLP 1 True (objCoeffs negativeRhsMax) (constraints negativeRhsMax) [] = Feasible [0] 0
   \<and> \<not> list_all (satisfies [0]) (constraints negativeRhsMax)
   \<and> last (res_steps (solve 1 negativeRhsMax)) = StOptimal
   \<and> res_methods (solve 1 negativeRhsMax) = [Dual]
   \<and> res_solution (solve 1 negativeRhsMax) = [(X 1, 1)]
   \<and> res_finalZ (solve 1 negativeRhsMax) = - 1
   \<and> list_all (satisfies [1]) (constraints negativeRhsMax)
   \<and> map_option res_bestSolution (branchAndBound negativeRhsILP) = Some (Some [0])
   \<and> map_option res_bestZ (branchAndBound negativeRhsILP) = Some (Finite 0)"
proof -
  have "solveLP 1 True (objCoeffs negativeRhsMax) (constraints negativeRhsMax) [] = Feasible [0] 0
   \<and> \<not> list_all (satisfies [0]) (constraints negativeRhsMax)
   \<and> last (res_steps (solve 1 negativeRhsMax)) = StOptimal
   \<and> res_methods (solve 1 negativeRhsMax) = [Dual]
   \<and> res_solution (solve 1 negativeRhsMax) = [(X 1, 1)]
   \<and> res_finalZ (solve 1 negativeRhsMax) = - 1
   \<and> list_all (satisfies [1]) (constraints negativeRhsMax)"
    by code_simp
  then show ?thesis by (simp add: negativeRhsILP_search)
qed

section \<open>The caller's objects\<close>

lemma keeps_refl: "keeps h0 h0"
  by (simp add: keeps_def)

lemma keeps_alloc:
  "keeps h0 h \<Longrightarrow> alloc h ob = (h', a) \<Longrightarrow> keeps h0 h' \<and> length h0 \<le> a"
  by (auto simp add: keeps_def alloc_def)

lemma keeps_setNum:
  "keeps h0 h \<Longrightarrow> length h0 \<le> a \<Longrightarrow> keeps h0 (setNum h a j v)"
  by (simp add: keeps_def setNum_def split: obj.splits)

lemma keeps_fold:
  "keeps h0 h \<Longrightarrow> (\<And>x h. keeps h0 h \<Longrightarrow> keeps h0 (f x h)) \<Longrightarrow> keeps h0 (fold f xs h)"
  by (induction xs arbitrary: h) simp_all

lemma keeps_fold_set:
  "keeps h0 h \<Longrightarrow> (\<And>x h. x \<in> set xs \<Longrightarrow> keeps h0 h \<Longrightarrow> keeps h0 (f x h)) \<Longrightarrow>
   keeps h0 (fold f xs h)"
  by (induction xs arbitrary: h) simp_all

lemma keeps_heapSubtractRow:
  "keeps h0 h \<Longrightarrow> length h0 \<le> target \<Longrightarrow> keeps h0 (heapSubtractRow h target factor src tv)"
  unfolding heapSubtractRow_def by (rule keeps_fold) (simp_all add: keeps_setNum)

lemma keeps_newRow:
  assumes "keeps h0 h" and "newRow numVars tv h c = (h', row)"
  shows "keeps h0 h' \<and> length h0 \<le> row"
proof -
  obtain h1 where a: "alloc h (NumArr (replicate (tv + 1) 0)) = (h1, row)"
    and h': "h' = fold (\<lambda>j h. setNum h row j (getNum h (conCoeffs h c) j)) [0..<numVars] h1"
    using assms(2) by (auto simp add: newRow_def split: prod.splits)
  from keeps_alloc [OF assms(1) a] have k: "keeps h0 h1" and r: "length h0 \<le> row" by simp_all
  have "keeps h0 h'" unfolding h' using k by (rule keeps_fold) (simp add: keeps_setNum r)
  then show ?thesis using r by simp
qed

lemma keeps_heapRows:
  "keeps h0 h \<Longrightarrow> list_all (\<lambda>r. length h0 \<le> r) rows \<Longrightarrow>
   heapRows numVars tv cs (h, rows, bvs, arts, varIndex) = (h', rows', bvs', arts', varIndex') \<Longrightarrow>
   keeps h0 h' \<and> list_all (\<lambda>r. length h0 \<le> r) rows'"
proof (induction cs arbitrary: h rows bvs arts varIndex)
  case Nil
  then show ?case by simp
next
  case (Cons c cs)
  obtain h1 row where n: "newRow numVars tv h c = (h1, row)"
    by (cases "newRow numVars tv h c")
  from keeps_newRow [OF Cons.prems(1) n] have k: "keeps h0 h1" and r: "length h0 \<le> row"
    by simp_all
  have rows: "list_all (\<lambda>r. length h0 \<le> r) (rows @ [row])"
    using Cons.prems(2) r by simp
  show ?case
  proof (cases "ctype (loadCon h1 c)")
    case Le
    show ?thesis
      using Cons.prems(3)
      by (intro Cons.IH [OF _ rows]) (simp_all add: n Le Let_def keeps_setNum k r)
  next
    case Ge
    show ?thesis
      using Cons.prems(3)
      by (intro Cons.IH [OF _ rows]) (simp_all add: n Ge Let_def keeps_setNum k r)
  next
    case Eq
    show ?thesis
      using Cons.prems(3)
      by (intro Cons.IH [OF _ rows]) (simp_all add: n Eq Let_def keeps_setNum k r)
  qed
qed


lemma keeps_heapZRow:
  assumes "keeps h0 h" and "heapZRow numVars tv negated h objRef arts rows bvs = (h', z)"
  shows "keeps h0 h' \<and> length h0 \<le> z"
proof -
  obtain h1 where a: "alloc h (NumArr (replicate (tv + 1) 0)) = (h1, z)"
    and h': "h' = fold (\<lambda>i h. if bvs ! i \<in> set arts
                                  then heapSubtractRow h z M (rows ! i) tv else h)
                      [0..<length bvs]
                   (fold (\<lambda>artIdx h. setNum h z artIdx M) arts
                     (fold (\<lambda>j h. setNum h z j
                            (if negated then - getNum h objRef j else getNum h objRef j))
                      [0..<numVars] h1))"
    using assms(2) by (auto simp add: heapZRow_def Let_def split: prod.splits)
  from keeps_alloc [OF assms(1) a] have k: "keeps h0 h1" and z: "length h0 \<le> z" by simp_all
  have "keeps h0 h'"
    unfolding h'
    by (intro keeps_fold k) (simp_all add: keeps_setNum keeps_heapSubtractRow z)
  then show ?thesis using z by simp
qed

lemma keeps_heapPivot:
  assumes "keeps h0 h" and "list_all (\<lambda>r. length h0 \<le> r) rows" and "length h0 \<le> z"
    and "pivotRow < length rows"
  shows "keeps h0 (heapPivot h rows z pivotRow pivotCol tv)"
proof -
  have r: "\<And>i. i < length rows \<Longrightarrow> length h0 \<le> rows ! i"
    using assms(2) by (simp add: list_all_length)
  show ?thesis
    unfolding heapPivot_def Let_def
    by (intro keeps_heapSubtractRow keeps_fold_set assms(1,3))
      (simp_all add: keeps_setNum keeps_heapSubtractRow r assms(4))
qed


lemma heapInv_applyPivot:
  "heapInv h0 s \<Longrightarrow> pivotRow < length (rowRefs s) \<Longrightarrow>
   heapInv h0 (heapApplyPivot tv pivotRow pivotCol s)"
  by (simp add: heapInv_def heapApplyPivot_def keeps_heapPivot)

lemma heapInv_iter:
  assumes "heapInv h0 s"
  shows "case heapIter tv arts s of Break s' \<Rightarrow> heapInv h0 s' | Continue s' \<Rightarrow> heapInv h0 s'"
proof -
  have same: "\<And>f. heapInv h0 (s\<lparr> hSteps := f \<rparr>)" "\<And>b. heapInv h0 (s\<lparr> hUseDualSimplex := b \<rparr>)"
    using assms by (simp_all add: heapInv_def)
  have p1: "heapInv h0 (heapApplyPivot tv pr pc s)"
    if "findPivotRow (map (getArr (heapOf s)) (rowRefs s)) c tv = Some pr" for pr pc c
    using findPivotRow_bound [OF that] assms by (simp add: heapInv_applyPivot)
  have p2: "heapInv h0 (heapApplyPivot tv pr pc s)"
    if "findDualPivotRow (map (getArr (heapOf s)) (rowRefs s)) tv = Some pr" for pr pc
    using findDualPivotRow_bound [OF that] assms by (simp add: heapInv_applyPivot)
  show ?thesis
    unfolding heapIter_def Let_def
    by (auto simp add: same p1 p2 split: option.splits)
qed

lemma heapInv_loop:
  "heapInv h0 s \<Longrightarrow> heapInv h0 (heapLoop tv arts iteration s)"
proof (induction tv arts iteration s rule: heapLoop.induct)
  case (1 tv arts iteration s)
  show ?case
  proof (cases "iteration < maxIterations")
    case False
    then show ?thesis using "1.prems" by (simp add: heapLoop.simps [of tv arts iteration])
  next
    case True
    show ?thesis
    proof (cases "heapIter tv arts s")
      case (Break s')
      then show ?thesis
        using True heapInv_iter [OF "1.prems", of tv arts]
        by (simp add: heapLoop.simps [of tv arts iteration])
    next
      case (Continue s')
      then have "heapInv h0 s'" using heapInv_iter [OF "1.prems", of tv arts] by simp
      then show ?thesis
        using True Continue "1.IH" [OF True Continue]
        by (simp add: heapLoop.simps [of tv arts iteration])
    qed
  qed
qed

lemma heapSolve_keeps: "keeps h (fst (heapSolve numVars h ot objRef consRef))"
proof -
  obtain h0 objRef' where o: "(if ot = Min then alloc h (NumArr (map uminus (getArr h objRef)))
                           else (h, objRef)) = (h0, objRef')"
    by (cases "(if ot = Min then alloc h (NumArr (map uminus (getArr h objRef)))
                           else (h, objRef))")
  have k0: "keeps h h0"
    using o keeps_alloc [OF keeps_refl, of h "NumArr (map uminus (getArr h objRef))" h0 objRef']
    by (auto simp add: keeps_refl split: if_splits)
  define cs where "cs = map (loadCon h0) (getRefs h0 consRef)"
  define tv where "tv = numVars + slackCount cs + surplusCount cs + artificialCount cs"
  obtain h1 rows bvs arts' vi where
    r: "heapRows numVars tv (getRefs h0 consRef) (h0, [], [], [], numVars) = (h1, rows, bvs, arts', vi)"
    by (cases "heapRows numVars tv (getRefs h0 consRef) (h0, [], [], [], numVars)")
  from keeps_heapRows [OF k0 _ r] have k1: "keeps h h1"
    and rows: "list_all (\<lambda>r. length h \<le> r) rows" by simp_all
  define arts where "arts = snd (snd (snd (snd (nameVars cs
      (map (\<lambda>j. X (Suc j)) [0..<numVars], Suc 0, Suc 0, Suc 0, [])))))"
  obtain h2 z where zr: "heapZRow numVars tv True h1 objRef' arts rows bvs = (h2, z)"
    by (cases "heapZRow numVars tv True h1 objRef' arts rows bvs")
  from keeps_heapZRow [OF k1 zr] have k2: "keeps h h2" and z: "length h \<le> z" by simp_all
  define s0 where "s0 = \<lparr> heapOf = h2, rowRefs = rows, zRef = z, hBasicVars = bvs,
                  hUseDualSimplex = hasNegativeRHS (map (getArr h2) rows), hSteps = [StInitial] \<rparr>"
  have "heapInv h s0" by (simp add: heapInv_def s0_def k2 rows z)
  then have "heapInv h (heapLoop tv arts 0 s0)" by (rule heapInv_loop)
  moreover have "fst (heapSolve numVars h ot objRef consRef) = heapOf (heapLoop tv arts 0 s0)"
    unfolding heapSolve_def Let_def o
    by (simp add: case_prod_beta cs_def [symmetric] tv_def [symmetric] r arts_def [symmetric] zr
        s0_def)
  ultimately show ?thesis by (simp add: heapInv_def)
qed


lemma keeps_heapRelaxLoop:
  "keeps h0 h \<Longrightarrow> list_all (\<lambda>r. length h0 \<le> r) rows \<Longrightarrow> length h0 \<le> z \<Longrightarrow>
   keeps h0 (fst (heapRelaxLoop tv iteration h rows z bvs))"
proof (induction tv iteration h rows z bvs rule: heapRelaxLoop.induct)
  case (1 tv iteration h rows z bvs)
  show ?case
  proof (cases "iteration < maxIterations")
    case False
    then show ?thesis using "1.prems"(1) by (simp add: heapRelaxLoop.simps [of tv iteration])
  next
    case True
    show ?thesis
    proof (cases "relaxPivotCol (getArr h z) tv")
      case None
      then show ?thesis using True "1.prems"(1) by (simp add: heapRelaxLoop.simps [of tv iteration])
    next
      case (Some pivotCol)
      show ?thesis
      proof (cases "findPivotRow (map (getArr h) rows) pivotCol tv")
        case None
        then show ?thesis
          using True Some "1.prems"(1) by (simp add: heapRelaxLoop.simps [of tv iteration])
      next
        case pr: (Some pivotRow)
        have "pivotRow < length rows" using findPivotRow_bound [OF pr] by simp
        then have "keeps h0 (heapPivot h rows z pivotRow pivotCol tv)"
          using "1.prems" by (simp add: keeps_heapPivot)
        then show ?thesis
          using True Some pr "1.IH" [OF True Some pr] "1.prems"(2,3)
          by (simp add: heapRelaxLoop.simps [of tv iteration h])
      qed
    qed
  qed
qed

lemma keeps_heapSolveLP:
  assumes "keeps h0 h"
  shows "keeps h0 (fst (heapSolveLP numVars isMax h objRef consRef extraRef))"
proof -
  obtain h1 allRef where a: "alloc h (RefArr (getRefs h consRef @ getRefs h extraRef)) = (h1, allRef)"
    by (cases "alloc h (RefArr (getRefs h consRef @ getRefs h extraRef))")
  from keeps_alloc [OF assms a] have k1: "keeps h0 h1" by simp
  define cs where "cs = map (loadCon h1) (getRefs h1 allRef)"
  define tv where "tv = numVars + slackCount cs + surplusCount cs + artificialCount cs"
  obtain h2 rows bvs arts vi where
    r: "heapRows numVars tv (getRefs h1 allRef) (h1, [], [], [], numVars) = (h2, rows, bvs, arts, vi)"
    by (cases "heapRows numVars tv (getRefs h1 allRef) (h1, [], [], [], numVars)")
  from keeps_heapRows [OF k1 _ r] have k2: "keeps h0 h2"
    and rows: "list_all (\<lambda>r. length h0 \<le> r) rows" by simp_all
  obtain h3 z where zr: "heapZRow numVars tv isMax h2 objRef arts rows bvs = (h3, z)"
    by (cases "heapZRow numVars tv isMax h2 objRef arts rows bvs")
  from keeps_heapZRow [OF k2 zr] have k3: "keeps h0 h3" and z: "length h0 \<le> z" by simp_all
  have k4: "keeps h0 (fst (heapRelaxLoop tv 0 h3 rows z bvs))"
    using k3 rows z by (rule keeps_heapRelaxLoop)
  obtain h4 ob where rl: "heapRelaxLoop tv 0 h3 rows z bvs = (h4, ob)"
    by (cases "heapRelaxLoop tv 0 h3 rows z bvs")
  have "fst (heapSolveLP numVars isMax h objRef consRef extraRef) = h4"
    unfolding heapSolveLP_def Let_def a prod.case cs_def [symmetric] tv_def [symmetric] r zr rl
    by (cases ob) simp_all
  then show ?thesis using k4 rl by simp
qed

lemma keeps_newUnitConstraint:
  assumes "keeps h0 h" and "newUnitConstraint numVars h i r v = (h', con)"
  shows "keeps h0 h'"
proof -
  obtain h1 cf h2 where a1: "alloc h (NumArr (replicate numVars 0)) = (h1, cf)"
    and a2: "alloc h1 (ConObj cf r (of_int v)) = (h2, con)" and h': "h' = setNum h2 cf i 1"
    using assms(2) by (auto simp add: newUnitConstraint_def split: prod.splits)
  from keeps_alloc [OF assms(1) a1] have k1: "keeps h0 h1" and cf: "length h0 \<le> cf" by simp_all
  from keeps_alloc [OF k1 a2] have "keeps h0 h2" by simp
  then show ?thesis unfolding h' using cf by (rule keeps_setNum)
qed

lemma keeps_heapProcessNode:
  assumes "keeps h0 h"
  shows "keeps h0 (fst (heapProcessNode numVars isMax ivs objRef consRef nd (h, s)))"
proof -
  obtain h1 r where lp: "heapSolveLP numVars isMax h objRef consRef (hn_extra nd) = (h1, r)"
    by (cases "heapSolveLP numVars isMax h objRef consRef (hn_extra nd)")
  have k1: "keeps h0 h1"
    using keeps_heapSolveLP [OF assms, of numVars isMax objRef consRef "hn_extra nd"] lp by simp
  have branch: "keeps h0 h5"
    if "newUnitConstraint numVars h1 i Le a = (h2, lc)"
      and "newUnitConstraint numVars h2 i Ge b = (h3, rc)"
      and "alloc h3 x = (h4, le)" and "alloc h4 y = (h5, re)"
    for i a b h2 lc h3 rc x h4 le y h5 re
  proof -
    have "keeps h0 h2" using keeps_newUnitConstraint [OF k1 that(1)] .
    then have "keeps h0 h3" using keeps_newUnitConstraint that(2) by blast
    then have "keeps h0 h4" using keeps_alloc that(3) by blast
    then show ?thesis using keeps_alloc that(4) by blast
  qed
  show ?thesis
    unfolding heapProcessNode_def
    by (auto simp add: lp k1 branch split: relaxation.splits option.splits prod.splits)
qed

lemma keeps_heapBBLoop:
  assumes "heapBBLoop numVars isMax ivs objRef consRef hs = Some hs'"
  shows "keeps h0 (fst hs) \<longrightarrow> keeps h0 (fst hs')"
proof (rule heapBBLoop.raw_induct
    [where P = "\<lambda>_ _ _ _ _ hs hs'. keeps h0 (fst hs) \<longrightarrow> keeps h0 (fst hs')", OF _ assms])
  fix loop numVars isMax ivs objRef consRef
    and hs hs' :: "heap \<times> heap_search"
  assume IH: "\<And>a b c d e f y. loop a b c d e f = Some y \<Longrightarrow> keeps h0 (fst f) \<longrightarrow> keeps h0 (fst y)"
    and eq: "(case hQueue (snd hs) of
                [] \<Rightarrow> Some hs
              | nd # rest \<Rightarrow>
                  loop numVars isMax ivs objRef consRef
                    (heapProcessNode numVars isMax ivs objRef consRef nd
                       (fst hs, (snd hs)\<lparr> hQueue := rest \<rparr>))) = Some hs'"
  show "keeps h0 (fst hs) \<longrightarrow> keeps h0 (fst hs')"
  proof (cases "hQueue (snd hs)")
    case Nil
    then show ?thesis using eq by simp
  next
    case (Cons nd rest)
    then have run: "loop numVars isMax ivs objRef consRef
               (heapProcessNode numVars isMax ivs objRef consRef nd
                  (fst hs, (snd hs)\<lparr> hQueue := rest \<rparr>)) = Some hs'"
      using eq by simp
    show ?thesis
    proof
      assume "keeps h0 (fst hs)"
      then have "keeps h0 (fst (heapProcessNode numVars isMax ivs objRef consRef nd
                  (fst hs, (snd hs)\<lparr> hQueue := rest \<rparr>)))"
        by (rule keeps_heapProcessNode)
      then show "keeps h0 (fst hs')" using IH [OF run] by simp
    qed
  qed
qed

lemma heapBranchAndBound_keeps:
  assumes "heapBranchAndBound numVars isMax ivs h objRef consRef = Some (h', best, zBest)"
  shows "keeps h h'"
proof -
  obtain h0 e where a: "alloc h (RefArr []) = (h0, e)" by (cases "alloc h (RefArr [])")
  from keeps_alloc [OF keeps_refl a] have k0: "keeps h h0" by simp
  from assms obtain s where
    "heapBBLoop numVars isMax ivs objRef consRef
       (h0, \<lparr> hQueue = [\<lparr> hn_id = 0, hn_extra = e, hn_depth = 0,
                           hn_parent = None, hn_branchInfo = None \<rparr>],
              hNodeId = 1, hBestSolution = None,
              hBestZ = (if isMax then NegInfinity else PosInfinity) \<rparr>) = Some (h', s)"
    unfolding heapBranchAndBound_def a by auto
  from keeps_heapBBLoop [OF this, of h] k0 show ?thesis by simp
qed

text \<open>
  Claim C9. For every heap, objective and list of constraint records passed into a
  solve call, the caller's objects are unchanged when the call returns: after the
  Simplex \<open>solve\<close>, after the relaxation solver of Branch and Bound (for any list of extra
  constraints), and after an integer search that returns, the heap restricted to the
  addresses that existed at the call is the heap of the call. No coefficient array,
  relation or right-hand side held by the caller is mutated, and no list.
\<close>

theorem caller_heap_unchanged:
  assumes "heapBranchAndBound numVars isMax ivs h objRef consRef = Some (h', best, zBest)"
  shows "take (length h) (fst (heapSolve numVars h ot objRef consRef)) = h
       \<and> take (length h) (fst (heapSolveLP numVars isMax h objRef consRef extraRef)) = h
       \<and> take (length h) h' = h"
  using heapSolve_keeps [where h = h and numVars = numVars and ot = ot and objRef = objRef
      and consRef = consRef]
    keeps_heapSolveLP [OF keeps_refl, where numVars = numVars and isMax = isMax and h = h
      and objRef = objRef and consRef = consRef and extraRef = extraRef]
    heapBranchAndBound_keeps [OF assms]
  by (simp add: keeps_def)

theorem caller_heap_unchanged_witness:
  "map_option (\<lambda>(h', best, zBest). (take (length heapHalf) h', best, zBest))
     (heapBranchAndBound 1 True [0] heapHalf 0 3) = Some (heapHalf, Some [1], Finite 1)
   \<and> take (length heapHalf) (fst (heapSolve 1 heapHalf Max 0 3)) = heapHalf
   \<and> res_solution (snd (heapSolve 1 heapHalf Max 0 3)) = [(X 1, 3 / 2)]"
proof -
  have "map_option (\<lambda>(h', best, zBest). (best, zBest))
     (heapBranchAndBound 1 True [0] heapHalf 0 3) = Some (Some [1], Finite 1)"
    by code_simp
  then obtain h' where run: "heapBranchAndBound 1 True [0] heapHalf 0 3 = Some (h', Some [1], Finite 1)"
    by auto
  have sol: "res_solution (snd (heapSolve 1 heapHalf Max 0 3)) = [(X 1, 3 / 2)]"
    by code_simp
  note t = caller_heap_unchanged [OF run, of Max 0]
  have a: "take (length heapHalf) h' = heapHalf" using t by simp
  have b: "map_option (\<lambda>(h', best, zBest). (take (length heapHalf) h', best, zBest))
     (heapBranchAndBound 1 True [0] heapHalf 0 3) = Some (heapHalf, Some [1], Finite 1)"
    unfolding run using a by simp
  have c: "take (length heapHalf) (fst (heapSolve 1 heapHalf Max 0 3)) = heapHalf"
    using t by simp
  show ?thesis using b c sol by simp
qed

text \<open>
  On that problem the scripts on the heap return what the scripts on values return: the
  same result record of \<open>solve\<close>, and the same best solution and value of the search.
\<close>

lemma heapSolve_agrees_example:
  "snd (heapSolve 1 heapHalf Max 0 3) = solve 1 halfLP"
  by code_simp

lemma heapBranchAndBound_agrees_example:
  "map_option (\<lambda>(h, best, zBest). (best, zBest)) (heapBranchAndBound 1 True [0] heapHalf 0 3)
     = map_option (\<lambda>r. (res_bestSolution r, res_bestZ r)) (branchAndBound halfILP)"
  by code_simp

end
